theory Spec2Isabelle
  imports Main "HOL-Library.Char_ord" "HOL-Library.List_Lexorder"
begin

section \<open>The OpenAPI document assembler of loopback-swagger\<close>

text \<open>
  This theory embeds \<^verbatim>\<open>lib/specgen/swagger-spec-generator.js\<close>: the function
  \<^verbatim>\<open>createSwaggerObject\<close> and its helper \<^verbatim>\<open>generateSwaggerObjectBase\<close>.

  Conventions of the embedding.
  \<^item> A JavaScript string is a \<^typ>\<open>string\<close>; strings are compared as JavaScript does, code
    unit by code unit, which is the lexicographic order on \<^typ>\<open>char list\<close>.
  \<^item> A JavaScript object is the association list of its own properties in enumeration
    order: the array-index names (\<^verbatim>\<open>"0"\<close>, \<^verbatim>\<open>"9"\<close>, \<^verbatim>\<open>"10"\<close>, ...) first, in numeric
    order, then the other names in the order of their creation. A property is written
    with \<open>obj_set\<close>, which keeps this order, and an own property is read with \<open>map_of\<close>.
  \<^item> A plain object inherits the properties of \<^verbatim>\<open>Object.prototype\<close>. The two reads of
    the file that look up an arbitrary name in a plain object, \<^verbatim>\<open>_swaggerMethods[methodName]\<close>
    in line 109 and \<^verbatim>\<open>usedTags[tag.name]\<close> in line 142, go through \<open>truthyProperty\<close>,
    which finds the inherited properties too. The objects that the collaborators fill
    or return (the grid of paths, the schemas) are taken to have no own property named
    \<^verbatim>\<open>__proto__\<close>: an object filled by assignment cannot get one.
  \<^item> \<^verbatim>\<open>undefined\<close> is \<open>None\<close> of an option type, or the constructor \<open>Undefined\<close> of
    the document values.
  \<^item> A thrown exception is the left injection of a sum type.
  \<^item> The modules \<^verbatim>\<open>route-helper\<close>, \<^verbatim>\<open>model-helper\<close>, \<^verbatim>\<open>type-converter\<close>,
    \<^verbatim>\<open>tag-builder\<close> and \<^verbatim>\<open>type-registry\<close> are required by the file and are not part of
    it. They are parameters of the embedding (the record \<open>collaborators\<close>); the type
    \<open>'r\<close> is the state of the two registries (type registry and operation-id registry)
    that the file creates and hands to them.
\<close>

subsection \<open>JavaScript objects and strings\<close>

text \<open>
  An array index is the canonical decimal numeral of a number below \<open>2\<^sup>3\<^sup>2 - 1\<close>: digits
  only, no leading zero except for \<^verbatim>\<open>"0"\<close> itself.
\<close>

definition isDigit :: "char \<Rightarrow> bool" where
  "isDigit c = (CHR ''0'' \<le> c \<and> c \<le> CHR ''9'')"

definition indexValue :: "string \<Rightarrow> int" where
  "indexValue s = foldl (\<lambda>n c. 10 * n + (of_char c - 48)) 0 s"

definition isArrayIndex :: "string \<Rightarrow> bool" where
  "isArrayIndex s =
     (s \<noteq> [] \<and> list_all isDigit s \<and> (hd s \<noteq> CHR ''0'' \<or> s = ''0'')
      \<and> indexValue s < 4294967295)"

text \<open>The value of an existing key is replaced in place, a new key goes to the end.\<close>

fun replaceOrAppend :: "('k \<times> 'v) list \<Rightarrow> 'k \<Rightarrow> 'v \<Rightarrow> ('k \<times> 'v) list" where
  "replaceOrAppend [] k v = [(k, v)]"
| "replaceOrAppend ((k', v') # kvs) k v =
     (if k' = k then (k, v) # kvs else (k', v') # replaceOrAppend kvs k v)"

text \<open>A new array-index key goes in front of the first key that is no array index or a
  greater one.\<close>

fun insertIndex :: "(string \<times> 'v) list \<Rightarrow> string \<Rightarrow> 'v \<Rightarrow> (string \<times> 'v) list" where
  "insertIndex [] k v = [(k, v)]"
| "insertIndex ((k', v') # kvs) k v =
     (if isArrayIndex k' \<and> indexValue k' < indexValue k then (k', v') # insertIndex kvs k v
      else (k, v) # (k', v') # kvs)"

text \<open>\<^verbatim>\<open>obj[k] = v\<close>.\<close>

definition obj_set :: "(string \<times> 'v) list \<Rightarrow> string \<Rightarrow> 'v \<Rightarrow> (string \<times> 'v) list" where
  "obj_set kvs k v =
     (if isArrayIndex k \<and> k \<notin> set (map fst kvs) then insertIndex kvs k v
      else replaceOrAppend kvs k v)"

text \<open>
  The names of the properties of \<^verbatim>\<open>Object.prototype\<close>; what is stored under each of them
  is truthy (a function, and for \<^verbatim>\<open>__proto__\<close> the prototype itself). \<open>truthyProperty\<close> is
  the truth value of \<^verbatim>\<open>obj[k]\<close> for a plain object whose own properties are given with
  the truth values of what they hold: an own property decides, otherwise an inherited
  one is found, otherwise the result is \<^verbatim>\<open>undefined\<close>.
\<close>

definition objectPrototypeNames :: "string list" where
  "objectPrototypeNames =
     [''constructor'', ''__defineGetter__'', ''__defineSetter__'', ''hasOwnProperty'',
      ''__lookupGetter__'', ''__lookupSetter__'', ''isPrototypeOf'', ''propertyIsEnumerable'',
      ''toString'', ''valueOf'', ''__proto__'', ''toLocaleString'']"

definition truthyProperty :: "(string \<times> bool) list \<Rightarrow> string \<Rightarrow> bool" where
  "truthyProperty obj k =
     (case map_of obj k of
        Some b \<Rightarrow> b
      | None \<Rightarrow> k \<in> set objectPrototypeNames)"

text \<open>\<^verbatim>\<open>Object.keys(obj)\<close>.\<close>

definition obj_keys :: "('k \<times> 'v) list \<Rightarrow> 'k list" where
  "obj_keys kvs = map fst kvs"

text \<open>\<^verbatim>\<open>s.replace(pat, rep)\<close> with a string pattern: the first occurrence is replaced.\<close>

fun replace_first :: "string \<Rightarrow> string \<Rightarrow> string \<Rightarrow> string" where
  "replace_first pat rep [] = (if pat = [] then rep else [])"
| "replace_first pat rep (c # cs) =
     (if take (length pat) (c # cs) = pat then rep @ drop (length pat) (c # cs)
      else c # replace_first pat rep cs)"

text \<open>
  The line terminators that \<^verbatim>\<open>.\<close> of a regular expression does not match, among the
  code units a \<^typ>\<open>char\<close> holds: line feed and carriage return.
\<close>

definition lineTerminator :: "char \<Rightarrow> bool" where
  "lineTerminator c = (c = CHR 0x0A \<or> c = CHR 0x0D)"

text \<open>
  \<^verbatim>\<open>/^([^.]+)\.(.*)$/.exec(s)\<close>: the two groups of the match, or \<open>None\<close> for
  \<^verbatim>\<open>null\<close>. The first group is the text before the first dot and must not be empty;
  the second is everything after that dot and must hold no line terminator.
\<close>

definition execClassMethod :: "string \<Rightarrow> (string \<times> string) option" where
  "execClassMethod s =
     (let cls = takeWhile (\<lambda>c. c \<noteq> CHR ''.'') s;
          rest = dropWhile (\<lambda>c. c \<noteq> CHR ''.'') s
      in if cls = [] \<or> rest = [] then None
         else if list_ex lineTerminator (tl rest) then None
         else Some (cls, tl rest))"

datatype jserror = TypeError

text \<open>
  Lines 95-96: \<^verbatim>\<open>.slice(1)\<close> on the \<^verbatim>\<open>null\<close> of a failed match throws a TypeError;
  otherwise the method name is the second group with the first \<^verbatim>\<open>'prototype.'\<close> removed.
\<close>

definition parseRouteMethod :: "string \<Rightarrow> jserror + (string \<times> string)" where
  "parseRouteMethod s =
     (case execClassMethod s of
        None \<Rightarrow> Inl TypeError
      | Some (className, methodName) \<Rightarrow>
          Inr (className, replace_first ''prototype.'' '''' methodName))"

subsection \<open>Inputs\<close>

text \<open>
  What the file reads of the application: \<^verbatim>\<open>get('restApiRoot')\<close>, \<^verbatim>\<open>get('swagger')\<close>
  (the document-level extension object), the routes of the REST adapter, the shared
  classes and the models of the registry.
\<close>

record sharedMethod =
  sharedName :: string
  sharedDocumented :: bool

text \<open>
  A shared class: \<open>name\<close> is \<open>None\<close> when the class has none; \<open>swaggerMethods\<close> is the
  property \<^verbatim>\<open>_swaggerMethods\<close>, \<open>None\<close> when it is not set, else a plain object, given by
  its own properties: method names with the truth value of what is stored under them.
\<close>

record sharedClass =
  name :: "string option"
  methods :: "sharedMethod list"
  swaggerMethods :: "(string \<times> bool) list option"

record route =
  documented :: bool
  "method" :: string
  verb :: string
  path :: string

record ('m, 'x) application =
  restApiRoot :: "string option"
  swagger :: "(string \<times> 'x) list option"
  routes :: "route list"
  classes :: "sharedClass list"
  models :: "(string \<times> 'm) list"

record securityScheme =
  schemeType :: string
  schemeIn :: string
  schemeName :: string

text \<open>
  The option \<^verbatim>\<open>securitySchemes\<close>: not supplied (\<^verbatim>\<open>undefined\<close>), supplied as \<^verbatim>\<open>null\<close>
  (or as another falsy value, which line 178 treats alike), or an object from scheme names
  to scheme descriptors.
\<close>

datatype schemesOption =
    SchemesUndefined
  | SchemesNull
  | Schemes "(string \<times> securityScheme) list"

record 't options =
  basePath :: "string option"
  consumes :: "string list option"
  produces :: "string list option"
  securitySchemes :: schemesOption
  version :: "string option"
  apiInfo :: "(string \<times> 't) list option"
  host :: "string option"

subsection \<open>The document\<close>

record operation =
  operationId :: string
  tags :: "string list"

record tag =
  tagName :: string
  tagDescription :: string

type_synonym pathGrid = "(string \<times> (string \<times> operation) list) list"

type_synonym pathItem = "(string \<times> operation option) list"

text \<open>The values stored under the keys of the document; \<open>Ext\<close> is a value of the
  extension object, which the generator never looks into.\<close>

datatype ('s, 'x) docValue =
    Undefined
  | Str string
  | Info "(string \<times> string) list"
  | Servers "string option list"
  | Paths "(string \<times> pathItem) list"
  | Tags "tag list"
  | Components "(string \<times> 's) list" schemesOption
  | Security "(string \<times> string list) list list"
  | Ext 'x

type_synonym ('s, 'x) document = "(string \<times> ('s, 'x) docValue) list"

definition doc_get :: "('s, 'x) document \<Rightarrow> string \<Rightarrow> ('s, 'x) docValue" where
  "doc_get d k = (case map_of d k of None \<Rightarrow> Undefined | Some v \<Rightarrow> v)"

subsection \<open>The modules the file requires\<close>

text \<open>
  \<open>packageJson\<close> is what \<^verbatim>\<open>require(path.join(process.cwd(), 'package.json'))\<close> gives,
  \<open>None\<close> when it throws. \<open>newRegistries\<close> is the pair of a fresh \<^verbatim>\<open>TypeRegistry\<close> and an
  empty operation-id registry. The other fields are the functions the generator calls:
  \<^verbatim>\<open>typeConverter.convertText\<close>, \<^verbatim>\<open>modelHelper.registerModelDefinition\<close>,
  \<^verbatim>\<open>tagBuilder.buildTagFromClass\<close>, \<^verbatim>\<open>routeHelper.addRouteToSwaggerPaths\<close> (which
  updates the registries and the object \<^verbatim>\<open>paths\<close>) and \<^verbatim>\<open>typeRegistry.getSchemas\<close>.
\<close>

record ('m, 'r, 's, 't) collaborators =
  packageJson :: "(string \<times> string) list option"
  newRegistries :: 'r
  convertText :: "'t \<Rightarrow> string"
  registerModelDefinition :: "'m \<Rightarrow> 'r \<Rightarrow> 't options \<Rightarrow> 'r"
  buildTagFromClass :: "sharedClass \<Rightarrow> tag"
  addRouteToSwaggerPaths ::
    "route \<Rightarrow> sharedClass \<Rightarrow> 'r \<Rightarrow> pathGrid \<Rightarrow> 't options \<Rightarrow> 'r \<times> pathGrid"
  getSchemas :: "'r \<Rightarrow> (string \<times> 's) list"

subsection \<open>\<^verbatim>\<open>getPackagePropertyOrDefault\<close> and the defaults of the options\<close>

definition getPackagePropertyOrDefault ::
  "(string \<times> string) list option \<Rightarrow> string \<Rightarrow> string \<Rightarrow> string" where
  "getPackagePropertyOrDefault pkg nm defautValue =
     (case pkg of
        None \<Rightarrow> defautValue
      | Some p \<Rightarrow>
          (case map_of p nm of
             None \<Rightarrow> defautValue
           | Some v \<Rightarrow> if v = [] then defautValue else v))"

definition defaultSecuritySchemes :: "(string \<times> securityScheme) list" where
  "defaultSecuritySchemes =
     [(''accessToken'',
         \<lparr>schemeType = ''apiKey'', schemeIn = ''header'', schemeName = ''authorization''\<rparr>),
      (''accessTokenParam'',
         \<lparr>schemeType = ''apiKey'', schemeIn = ''query'', schemeName = ''access_token''\<rparr>)]"

text \<open>Lines 30-52: \<^verbatim>\<open>_.defaults(opts || {}, {...})\<close> fills the options that are
  \<^verbatim>\<open>undefined\<close>.\<close>

definition optionDefaults ::
  "(string \<times> string) list option \<Rightarrow> ('m, 'x) application \<Rightarrow> 't options \<Rightarrow> 't options" where
  "optionDefaults pkg app opts =
     opts\<lparr>basePath :=
            (case basePath opts of
               None \<Rightarrow>
                 Some (case restApiRoot app of
                         None \<Rightarrow> ''/api''
                       | Some root \<Rightarrow> if root = [] then ''/api'' else root)
             | Some b \<Rightarrow> Some b),
          consumes :=
            (case consumes opts of None \<Rightarrow> Some [''application/json''] | Some c \<Rightarrow> Some c),
          produces :=
            (case produces opts of None \<Rightarrow> Some [''application/json''] | Some c \<Rightarrow> Some c),
          securitySchemes :=
            (case securitySchemes opts of
               SchemesUndefined \<Rightarrow> Schemes defaultSecuritySchemes
             | s \<Rightarrow> s),
          version :=
            (case version opts of
               None \<Rightarrow> Some (getPackagePropertyOrDefault pkg ''version'' ''1.0.0'')
             | Some v \<Rightarrow> Some v)\<rparr>"

subsection \<open>\<^verbatim>\<open>generateSwaggerObjectBase\<close>\<close>

text \<open>
  \<^verbatim>\<open>_.defaults(dest, src)\<close>: a property of the source is assigned where the destination
  resolves to \<^verbatim>\<open>undefined\<close>, and nowhere else.
\<close>

definition defaults :: "('s, 'x) document \<Rightarrow> ('s, 'x) document \<Rightarrow> ('s, 'x) document" where
  "defaults dest src =
     fold (\<lambda>(k, v) d. if doc_get d k = Undefined then obj_set d k v else d) src dest"

definition truthyText :: "string option \<Rightarrow> bool" where
  "truthyText v = (case v of None \<Rightarrow> False | Some s \<Rightarrow> s \<noteq> [])"

text \<open>Lines 156-171: the \<^verbatim>\<open>info\<close> object.\<close>

definition apiInfoOf ::
  "('m, 'r, 's, 't) collaborators \<Rightarrow> 't options \<Rightarrow> (string \<times> string) list" where
  "apiInfoOf h opts =
     (let converted =
            (case apiInfo opts of
               None \<Rightarrow> []
             | Some info \<Rightarrow> map (\<lambda>(propertyName, property). (propertyName, convertText h property)) info);
          versioned =
            obj_set converted ''version''
              (if truthyText (map_of converted ''version'')
               then (case map_of converted ''version'' of Some v \<Rightarrow> v | None \<Rightarrow> [])
               else (case version opts of Some v \<Rightarrow> v | None \<Rightarrow> ''undefined''));
          titled =
            (if truthyText (map_of versioned ''title'') then versioned
             else obj_set versioned ''title''
                    (getPackagePropertyOrDefault (packageJson h) ''name'' ''LoopBack Application''))
      in if truthyText (map_of titled ''description'') then titled
         else obj_set titled ''description''
                (getPackagePropertyOrDefault (packageJson h) ''description''
                   ''LoopBack Application''))"

text \<open>Lines 173-175: a trailing slash of the base path is cut off.\<close>

definition stripTrailingSlash :: "string option \<Rightarrow> string option" where
  "stripTrailingSlash b =
     (case b of
        None \<Rightarrow> None
      | Some p \<Rightarrow> if p \<noteq> [] \<and> last p = CHR ''/'' then Some (butlast p) else Some p)"

text \<open>Lines 177-185: one requirement object per scheme name, each with no scopes.\<close>

definition securityOf :: "schemesOption \<Rightarrow> ('s, 'x) docValue" where
  "securityOf schemes =
     (case schemes of
        Schemes ss \<Rightarrow> Security (map (\<lambda>type. [(type, [])]) (obj_keys ss))
      | _ \<Rightarrow> Undefined)"

text \<open>Lines 188-197: the object literal that \<^verbatim>\<open>_.defaults\<close> completes.\<close>

definition coreDocument ::
  "('m, 'r, 's, 't) collaborators \<Rightarrow> 't options \<Rightarrow> ('s, 'x) document" where
  "coreDocument h opts =
     [(''openapi'', Str ''3.0.1''),
      (''info'', Info (apiInfoOf h opts)),
      (''servers'', Servers [stripTrailingSlash (basePath opts)]),
      (''paths'', Paths []),
      (''tags'', Tags []),
      (''components'', Components [] (securitySchemes opts)),
      (''security'', securityOf (securitySchemes opts))]"

text \<open>Lines 187-203: first the extension object, then \<^verbatim>\<open>{host: opts.host}\<close>.\<close>

definition generateSwaggerObjectBase ::
  "('m, 'r, 's, 't) collaborators \<Rightarrow> 't options \<Rightarrow> ('m, 'x) application \<Rightarrow> ('s, 'x) document" where
  "generateSwaggerObjectBase h opts app =
     (let swaggerSpecExtensions = (case swagger app of None \<Rightarrow> [] | Some e \<Rightarrow> e)
      in defaults
           (defaults (coreDocument h opts) (map (\<lambda>(k, v). (k, Ext v)) swaggerSpecExtensions))
           [(''host'', (case host opts of None \<Rightarrow> Undefined | Some hst \<Rightarrow> Str hst))])"

subsection \<open>\<^verbatim>\<open>createSwaggerObject\<close>\<close>

text \<open>Lines 69-71: every model is registered, in the enumeration order of the models.\<close>

definition registerModels ::
  "('m, 'r, 's, 't) collaborators \<Rightarrow> 't options \<Rightarrow> (string \<times> 'm) list \<Rightarrow> 'r" where
  "registerModels h opts ms =
     fold (\<lambda>(modelName, model) typeRegistry. registerModelDefinition h model typeRegistry opts)
       ms (newRegistries h)"

text \<open>Lines 76-87: a tag for every class that has a (non-empty) name and a documented
  method.\<close>

definition hasDocumentedMethods :: "sharedClass \<Rightarrow> bool" where
  "hasDocumentedMethods aClass = list_ex sharedDocumented (methods aClass)"

definition tagCandidates ::
  "('m, 'r, 's, 't) collaborators \<Rightarrow> sharedClass list \<Rightarrow> tag list" where
  "tagCandidates h cs =
     map (buildTagFromClass h)
       (filter (\<lambda>aClass. truthyText (name aClass) \<and> hasDocumentedMethods aClass) cs)"

text \<open>
  The state of the loop over the routes (lines 89-116): the registries, the object
  \<^verbatim>\<open>paths\<close>, and the routes reported through \<^verbatim>\<open>g.error\<close>.
\<close>

record 'r progress =
  registries :: 'r
  paths :: pathGrid
  reported :: "route list"

text \<open>Lines 98-100: the first class of that name.\<close>

definition findClass :: "sharedClass list \<Rightarrow> string \<Rightarrow> sharedClass option" where
  "findClass cs className =
     (case filter (\<lambda>item. name item = Some className) cs of
        [] \<Rightarrow> None
      | classDef # _ \<Rightarrow> Some classDef)"

text \<open>Lines 108-111: the route passes when the class has no \<^verbatim>\<open>_swaggerMethods\<close> or when
  \<^verbatim>\<open>_swaggerMethods[methodName]\<close> is truthy, be the property its own or inherited.\<close>

definition passesSwaggerMethods :: "sharedClass \<Rightarrow> string \<Rightarrow> bool" where
  "passesSwaggerMethods classDef mName =
     (case swaggerMethods classDef of
        None \<Rightarrow> True
      | Some allowed \<Rightarrow> truthyProperty allowed mName)"

definition callAddRoute ::
  "('m, 'r, 's, 't) collaborators \<Rightarrow> 't options \<Rightarrow> route \<Rightarrow> sharedClass \<Rightarrow> 'r progress
     \<Rightarrow> 'r progress" where
  "callAddRoute h opts r classDef st =
     (case addRouteToSwaggerPaths h r classDef (registries st) (paths st) opts of
        (reg, grid) \<Rightarrow> st\<lparr>registries := reg, paths := grid\<rparr>)"

text \<open>The body of the callback of \<^verbatim>\<open>routes.forEach\<close>, lines 92-115.\<close>

definition routeStep ::
  "('m, 'r, 's, 't) collaborators \<Rightarrow> 't options \<Rightarrow> sharedClass list \<Rightarrow> route \<Rightarrow> 'r progress
     \<Rightarrow> jserror + 'r progress" where
  "routeStep h opts cs r st =
     (if \<not> documented r then Inr st
      else case parseRouteMethod (method r) of
             Inl e \<Rightarrow> Inl e
           | Inr (className, mName) \<Rightarrow>
               (case findClass cs className of
                  None \<Rightarrow> Inr (st\<lparr>reported := reported st @ [r]\<rparr>)
                | Some classDef \<Rightarrow>
                    if \<not> passesSwaggerMethods classDef mName then Inr st
                    else Inr (callAddRoute h opts r classDef st)))"

fun forEachRoute ::
  "('m, 'r, 's, 't) collaborators \<Rightarrow> 't options \<Rightarrow> sharedClass list \<Rightarrow> route list \<Rightarrow> 'r progress
     \<Rightarrow> jserror + 'r progress" where
  "forEachRoute h opts cs [] st = Inr st"
| "forEachRoute h opts cs (r # rs) st =
     (case routeStep h opts cs r st of
        Inl e \<Rightarrow> Inl e
      | Inr st' \<Rightarrow> forEachRoute h opts cs rs st')"

text \<open>Lines 118-123: the schemas are copied key by key in sorted key order, and the copy
  is assigned to the empty \<^verbatim>\<open>components.schemas\<close>.\<close>

definition sortedSchema :: "(string \<times> 's) list \<Rightarrow> (string \<times> 's) list" where
  "sortedSchema schemas =
     fold (\<lambda>current acc.
             case map_of schemas current of
               None \<Rightarrow> acc
             | Some schema \<Rightarrow> obj_set acc current schema)
       (sort (obj_keys schemas)) []"

definition assign :: "(string \<times> 'v) list \<Rightarrow> (string \<times> 'v) list \<Rightarrow> (string \<times> 'v) list" where
  "assign dest src = fold (\<lambda>(k, v) d. obj_set d k v) src dest"

text \<open>Line 135, \<^verbatim>\<open>usedTags[tag] = true\<close>. Assigning a truth value to \<^verbatim>\<open>__proto__\<close> changes
  nothing: the setter that \<^verbatim>\<open>usedTags\<close> inherits ignores it.\<close>

definition markUsed :: "string \<Rightarrow> (string \<times> bool) list \<Rightarrow> (string \<times> bool) list" where
  "markUsed tg usedTags = (if tg = ''__proto__'' then usedTags else obj_set usedTags tg True)"

text \<open>Lines 125-139. For one method of one path: the slot of the document gets what
  \<^verbatim>\<open>paths[current][method]\<close> holds (\<open>None\<close> is \<^verbatim>\<open>undefined\<close>), and the tags of an operation
  found there are marked as used.\<close>

definition httpMethods :: "string list" where
  "httpMethods = [''get'', ''post'', ''put'', ''patch'', ''delete'', ''head'', ''options'']"

definition copyMethod ::
  "(string \<times> operation) list \<Rightarrow> string \<Rightarrow> pathItem \<times> (string \<times> bool) list
     \<Rightarrow> pathItem \<times> (string \<times> bool) list" where
  "copyMethod item m acc =
     (case acc of
        (slots, usedTags) \<Rightarrow>
          (let def = map_of item m
           in (obj_set slots m def,
               case def of
                 None \<Rightarrow> usedTags
               | Some d \<Rightarrow> fold markUsed (tags d) usedTags)))"

text \<open>\<^verbatim>\<open>paths[current]\<close>, the object of the operations of one path.\<close>

definition gridItem :: "pathGrid \<Rightarrow> string \<Rightarrow> (string \<times> operation) list" where
  "gridItem grid current = (case map_of grid current of None \<Rightarrow> [] | Some item \<Rightarrow> item)"

definition copyPath ::
  "pathGrid \<Rightarrow> string \<Rightarrow> (string \<times> pathItem) list \<times> (string \<times> bool) list
     \<Rightarrow> (string \<times> pathItem) list \<times> (string \<times> bool) list" where
  "copyPath grid current acc =
     (case acc of
        (docPaths, usedTags) \<Rightarrow>
          (case fold (copyMethod (gridItem grid current)) httpMethods ([], usedTags) of
             (slots, usedTags') \<Rightarrow> (obj_set docPaths current slots, usedTags')))"

definition copyPaths :: "pathGrid \<Rightarrow> (string \<times> pathItem) list \<times> (string \<times> bool) list" where
  "copyPaths grid = fold (copyPath grid) (sort (obj_keys grid)) ([], [])"

text \<open>
  Line 142. The comparator \<^verbatim>\<open>(a, b) => a.name > b.name ? 1 : -1\<close> never answers 0, so
  for tags of equal names the order that \<^verbatim>\<open>Array.prototype.sort\<close> leaves is up to the
  engine. \<open>sortBy\<close> is the binary insertion of current V8 for short arrays: the elements
  are taken from the left, and each goes in front of the first element the comparator
  does not put it after, so that tags of equal names come out in reverse. For tags of
  pairwise distinct names every sorting algorithm gives the same list.
\<close>

definition compareTags :: "tag \<Rightarrow> tag \<Rightarrow> int" where
  "compareTags a b = (if tagName a > tagName b then 1 else - 1)"

fun insertBy :: "('a \<Rightarrow> 'a \<Rightarrow> int) \<Rightarrow> 'a \<Rightarrow> 'a list \<Rightarrow> 'a list" where
  "insertBy cmp x [] = [x]"
| "insertBy cmp x (y # ys) = (if cmp x y > 0 then y # insertBy cmp x ys else x # y # ys)"

definition sortBy :: "('a \<Rightarrow> 'a \<Rightarrow> int) \<Rightarrow> 'a list \<Rightarrow> 'a list" where
  "sortBy cmp xs = fold (insertBy cmp) xs []"

text \<open>Line 142: the candidates for which \<^verbatim>\<open>usedTags[tag.name]\<close> is truthy, sorted.\<close>

definition usedTagsFilter :: "(string \<times> bool) list \<Rightarrow> tag list \<Rightarrow> tag list" where
  "usedTagsFilter usedTags tgs =
     sortBy compareTags (filter (\<lambda>tg. truthyProperty usedTags (tagName tg)) tgs)"

text \<open>
  Lines 118-145 on the state the loop over the routes has left. The base document holds
  \<^verbatim>\<open>paths: {}\<close>, \<^verbatim>\<open>tags: []\<close> and \<^verbatim>\<open>components\<close> with \<^verbatim>\<open>schemas: {}\<close> under its own keys
  (see \<open>generateSwaggerObjectBase\<close>), so filling them is writing these three keys.
\<close>

definition finalize ::
  "('m, 'r, 's, 't) collaborators \<Rightarrow> 't options \<Rightarrow> tag list \<Rightarrow> ('s, 'x) document \<Rightarrow> 'r progress
     \<Rightarrow> ('s, 'x) document" where
  "finalize h opts tgs swaggerObject st =
     (case copyPaths (paths st) of
        (docPaths, usedTags) \<Rightarrow>
          obj_set
            (obj_set
               (obj_set swaggerObject ''components''
                  (Components (assign [] (sortedSchema (getSchemas h (registries st))))
                     (securitySchemes opts)))
               ''paths'' (Paths docPaths))
            ''tags'' (Tags (usedTagsFilter usedTags tgs)))"

text \<open>
  The whole function. The result is the exception thrown, or the document together with
  the routes reported as having no class. The event \<^verbatim>\<open>swaggerResources\<close> emitted at the end
  is taken to have no listener that changes the document.
\<close>

definition createSwaggerObject ::
  "('m, 'r, 's, 't) collaborators \<Rightarrow> ('m, 'x) application \<Rightarrow> 't options
     \<Rightarrow> jserror + (('s, 'x) document \<times> route list)" where
  "createSwaggerObject h loopbackApplication opts0 =
     (let opts = optionDefaults (packageJson h) loopbackApplication opts0;
          swaggerObject = generateSwaggerObjectBase h opts loopbackApplication;
          typeRegistry = registerModels h opts (models loopbackApplication);
          tgs = tagCandidates h (classes loopbackApplication)
      in case forEachRoute h opts (classes loopbackApplication) (routes loopbackApplication)
                \<lparr>registries = typeRegistry, paths = [], reported = []\<rparr> of
           Inl e \<Rightarrow> Inl e
         | Inr st \<Rightarrow> Inr (finalize h opts tgs swaggerObject st, reported st))"

subsection \<open>The route helper, and collaborators for concrete runs\<close>

text \<open>
  Modelled from the spec: the merge step of the route helper (\<^verbatim>\<open>route-helper.js\<close> is
  required by the file and missing here). The spec has the operation of a route merged
  into the path/method grid, overwriting any previous entry for the same path and method
  (the last writer wins).
\<close>

definition mergeOperation :: "pathGrid \<Rightarrow> string \<Rightarrow> string \<Rightarrow> operation \<Rightarrow> pathGrid" where
  "mergeOperation grid p m operation =
     obj_set grid p (obj_set (gridItem grid p) m operation)"

text \<open>
  Modelled from the spec: \<^verbatim>\<open>routeHelper.addRouteToSwaggerPaths\<close>, missing for the same
  reason. The spec gives the route mapper the contract
  \<^verbatim>\<open>mapRoute(route, classDescriptor, schemaRegistry, operationIdRegistry, options) ->
  (pathTemplate, method, Operation)\<close>, possibly registering schemas and reserving an
  operation id on the way, and has the result merged into the grid. The mapping itself
  stays a parameter, \<open>mapRoute\<close>.
\<close>

definition addRouteBySpec ::
  "(route \<Rightarrow> sharedClass \<Rightarrow> 'r \<Rightarrow> 't options \<Rightarrow> (string \<times> string \<times> operation) \<times> 'r)
     \<Rightarrow> route \<Rightarrow> sharedClass \<Rightarrow> 'r \<Rightarrow> pathGrid \<Rightarrow> 't options \<Rightarrow> 'r \<times> pathGrid" where
  "addRouteBySpec mapRoute r classDef reg grid opts =
     (case mapRoute r classDef reg opts of
        ((p, m, operation), reg') \<Rightarrow> (reg', mergeOperation grid p m operation))"

text \<open>
  Collaborators for running the generator on concrete inputs. A model is a pair of its
  name and its shape, the registries are the object of the schemas registered so far, and
  registering a model stores its shape under its name. The route mapper takes the path and
  the verb of the route as they are, names the operation after the method identifier and
  tags it with the name of the class; the tag of a class carries the name of the class.
\<close>

definition plainMapRoute ::
  "route \<Rightarrow> sharedClass \<Rightarrow> (string \<times> string) list \<Rightarrow> string options
     \<Rightarrow> (string \<times> string \<times> operation) \<times> (string \<times> string) list" where
  "plainMapRoute r classDef reg opts =
     ((path r, verb r,
       \<lparr>operationId = method r,
        tags = (case name classDef of None \<Rightarrow> [] | Some n \<Rightarrow> [n])\<rparr>), reg)"

definition plainCollaborators ::
  "(string \<times> string, (string \<times> string) list, string, string) collaborators" where
  "plainCollaborators =
     \<lparr>packageJson = None,
      newRegistries = [],
      convertText = (\<lambda>t. t),
      registerModelDefinition = (\<lambda>model reg opts. obj_set reg (fst model) (snd model)),
      buildTagFromClass =
        (\<lambda>aClass. \<lparr>tagName = (case name aClass of None \<Rightarrow> [] | Some n \<Rightarrow> n),
                    tagDescription = []\<rparr>),
      addRouteToSwaggerPaths = addRouteBySpec plainMapRoute,
      getSchemas = (\<lambda>reg. reg)\<rparr>"

definition noOptions :: "string options" where
  "noOptions =
     \<lparr>basePath = None, consumes = None, produces = None,
      securitySchemes = SchemesUndefined, version = None, apiInfo = None, host = None\<rparr>"

definition resultDocument ::
  "jserror + (('s, 'x) document \<times> route list) \<Rightarrow> ('s, 'x) document" where
  "resultDocument res = (case res of Inl e \<Rightarrow> [] | Inr (d, ds) \<Rightarrow> d)"

subsection \<open>Reading the returned document\<close>

text \<open>
  The operations the document holds in the method slots of its paths, the tag names these
  operations carry, the paths and tags of a document, and the keys of the object literal
  of \<open>generateSwaggerObjectBase\<close>.
\<close>

definition operationsOf :: "(string \<times> pathItem) list \<Rightarrow> operation list" where
  "operationsOf ps =
     concat (map (\<lambda>(current, slots).
                    concat (map (\<lambda>(m, def). case def of None \<Rightarrow> [] | Some d \<Rightarrow> [d]) slots)) ps)"

definition usedTagNames :: "(string \<times> pathItem) list \<Rightarrow> string list" where
  "usedTagNames ps = concat (map tags (operationsOf ps))"

definition documentPaths :: "('s, 'x) document \<Rightarrow> (string \<times> pathItem) list" where
  "documentPaths d = (case doc_get d ''paths'' of Paths ps \<Rightarrow> ps | _ \<Rightarrow> [])"

definition documentTags :: "('s, 'x) document \<Rightarrow> tag list" where
  "documentTags d = (case doc_get d ''tags'' of Tags ts \<Rightarrow> ts | _ \<Rightarrow> [])"

definition documentSchemas :: "('s, 'x) document \<Rightarrow> (string \<times> 's) list" where
  "documentSchemas d = (case doc_get d ''components'' of Components schemas schemes \<Rightarrow> schemas | _ \<Rightarrow> [])"


text \<open>The slots the loop of lines 129-138 writes for one path, without the marking of
  tags; \<open>pathItemOf_copyMethod\<close> below shows that this is what \<open>copyMethod\<close> builds.\<close>

definition pathItemOf :: "(string \<times> operation) list \<Rightarrow> pathItem" where
  "pathItemOf item = map (\<lambda>m. (m, map_of item m)) httpMethods"

text \<open>The tag names an object marks as used.\<close>

definition usedSet :: "(string \<times> bool) list \<Rightarrow> string set" where
  "usedSet usedTags = {n. map_of usedTags n = Some True}"

text \<open>The tag names of the operations an object of operations holds under the given
  methods.\<close>

definition tagsIn :: "(string \<times> operation) list \<Rightarrow> string list \<Rightarrow> string set" where
  "tagsIn item ms = {n. \<exists>m\<in>set ms. \<exists>d. map_of item m = Some d \<and> n \<in> set (tags d)}"

text \<open>
  A route yields an operation for a path and a method: it is documented, its class is
  found, it passes \<^verbatim>\<open>_swaggerMethods\<close>, and the route mapper gives this path, method and
  operation for it (in some state of the registries).
\<close>

definition routeYields ::
  "(route \<Rightarrow> sharedClass \<Rightarrow> 'r \<Rightarrow> 't options \<Rightarrow> (string \<times> string \<times> operation) \<times> 'r)
     \<Rightarrow> 't options \<Rightarrow> sharedClass list \<Rightarrow> route \<Rightarrow> string \<Rightarrow> string \<Rightarrow> operation \<Rightarrow> bool" where
  "routeYields mapRoute opts cs r current m operation =
     (documented r \<and>
      (\<exists>className mName classDef reg.
          parseRouteMethod (method r) = Inr (className, mName)
        \<and> findClass cs className = Some classDef
        \<and> passesSwaggerMethods classDef mName
        \<and> fst (mapRoute r classDef reg opts) = (current, m, operation)))"

text \<open>Concrete inputs: an application without models and without extension object.\<close>

definition plainApplication ::
  "route list \<Rightarrow> sharedClass list \<Rightarrow> (string \<times> string, string) application" where
  "plainApplication rs cs =
     \<lparr>restApiRoot = None, swagger = None, routes = rs, classes = cs, models = []\<rparr>"

definition widgetClass :: sharedClass where
  "widgetClass =
     \<lparr>name = Some ''widget'',
      methods = [\<lparr>sharedName = ''find'', sharedDocumented = True\<rparr>,
                 \<lparr>sharedName = ''create'', sharedDocumented = True\<rparr>],
      swaggerMethods = None\<rparr>"

definition findOnlyClass :: sharedClass where
  "findOnlyClass = widgetClass\<lparr>swaggerMethods := Some [(''find'', True)]\<rparr>"

definition widgetFind :: route where
  "widgetFind =
     \<lparr>documented = True, method = ''widget.find'', verb = ''get'', path = ''/widgets''\<rparr>"

definition widgetCreate :: route where
  "widgetCreate =
     \<lparr>documented = True, method = ''widget.create'', verb = ''post'', path = ''/widgets''\<rparr>"

definition widgetFindById :: route where
  "widgetFindById =
     \<lparr>documented = True, method = ''widget.prototype.findById'', verb = ''get'',
      path = ''/widgets/{id}''\<rparr>"

definition gadgetFind :: route where
  "gadgetFind =
     \<lparr>documented = True, method = ''gadget.find'', verb = ''get'', path = ''/gadgets''\<rparr>"

definition ping :: route where
  "ping = \<lparr>documented = True, method = ''ping'', verb = ''get'', path = ''/ping''\<rparr>"

text \<open>A second route on the path and verb of \<open>widgetFind\<close>.\<close>

definition widgetList :: route where
  "widgetList =
     \<lparr>documented = True, method = ''widget.list'', verb = ''get'', path = ''/widgets''\<rparr>"

text \<open>A class named \<^verbatim>\<open>widget\<close> none of whose methods is documented, a second class,
  two models, and an extension object.\<close>

definition undocumentedWidget :: sharedClass where
  "undocumentedWidget =
     \<lparr>name = Some ''widget'',
      methods = [\<lparr>sharedName = ''find'', sharedDocumented = False\<rparr>],
      swaggerMethods = None\<rparr>"

definition gadgetClass :: sharedClass where
  "gadgetClass =
     \<lparr>name = Some ''gadget'',
      methods = [\<lparr>sharedName = ''find'', sharedDocumented = True\<rparr>],
      swaggerMethods = None\<rparr>"

definition twoModels :: "(string \<times> string \<times> string) list" where
  "twoModels = [(''Widget'', (''Widget'', ''object'')), (''Account'', (''Account'', ''object''))]"

text \<open>Three models whose names include canonical array indices, and a route of the
  class \<^verbatim>\<open>widget\<close> for an instance method named \<^verbatim>\<open>constructor\<close>.\<close>

definition numberedModels :: "(string \<times> string \<times> string) list" where
  "numberedModels =
     [(''b'', (''b'', ''object'')), (''9'', (''9'', ''object'')), (''10'', (''10'', ''object''))]"

definition widgetConstructor :: route where
  "widgetConstructor =
     \<lparr>documented = True, method = ''widget.prototype.constructor'', verb = ''put'',
      path = ''/widgets/{id}/constructor''\<rparr>"


section \<open>Properties\<close>

subsection \<open>Objects, defaults and the base document\<close>

lemma map_of_replaceOrAppend:
  "map_of (replaceOrAppend kvs k v) k' = (if k' = k then Some v else map_of kvs k')"
  by (induction kvs) auto

lemma map_of_insertIndex:
  "k \<notin> fst ` set kvs \<Longrightarrow>
   map_of (insertIndex kvs k v) k' = (if k' = k then Some v else map_of kvs k')"
  by (induction kvs) auto

lemma map_of_obj_set:
  "map_of (obj_set kvs k v) k' = (if k' = k then Some v else map_of kvs k')"
  by (simp add: obj_set_def map_of_replaceOrAppend map_of_insertIndex)

lemma doc_get_obj_set:
  "doc_get (obj_set d k v) k' = (if k' = k then v else doc_get d k')"
  by (simp add: doc_get_def map_of_obj_set)

lemma keys_replaceOrAppend_old:
  "k \<in> fst ` set kvs \<Longrightarrow> map fst (replaceOrAppend kvs k v) = map fst kvs"
  by (induction kvs) force+

lemma keys_replaceOrAppend_new:
  "k \<notin> fst ` set kvs \<Longrightarrow> map fst (replaceOrAppend kvs k v) = map fst kvs @ [k]"
  by (induction kvs) auto

lemma keys_obj_set_old:
  "k \<in> fst ` set kvs \<Longrightarrow> map fst (obj_set kvs k v) = map fst kvs"
  by (simp add: obj_set_def keys_replaceOrAppend_old)

lemma keys_obj_set_new:
  "k \<notin> fst ` set kvs \<Longrightarrow> \<not> isArrayIndex k \<Longrightarrow> map fst (obj_set kvs k v) = map fst kvs @ [k]"
  by (simp add: obj_set_def keys_replaceOrAppend_new)

lemma set_insertIndex:
  "set (insertIndex kvs k v) = insert (k, v) (set kvs)"
  by (induction kvs) (auto split: if_splits)

lemma fst_set_replaceOrAppend:
  "fst ` set (replaceOrAppend kvs k v) = insert k (fst ` set kvs)"
  by (induction kvs) (force split: if_splits)+

lemma set_keys_obj_set:
  "fst ` set (obj_set kvs k v) = insert k (fst ` set kvs)"
  by (simp add: obj_set_def set_insertIndex fst_set_replaceOrAppend)

lemma distinct_keys_insertIndex:
  "k \<notin> fst ` set kvs \<Longrightarrow> distinct (map fst kvs) \<Longrightarrow> distinct (map fst (insertIndex kvs k v))"
  by (induction kvs) (auto simp: set_insertIndex)

lemma distinct_keys_obj_set:
  "distinct (map fst kvs) \<Longrightarrow> distinct (map fst (obj_set kvs k v))"
proof (cases "k \<in> fst ` set kvs")
  case True
  assume "distinct (map fst kvs)"
  with True show ?thesis by (simp add: keys_obj_set_old)
next
  case False
  assume "distinct (map fst kvs)"
  with False show ?thesis
    by (auto simp: obj_set_def distinct_keys_insertIndex keys_replaceOrAppend_new)
qed

lemma defaults_Nil: "defaults dest [] = dest"
  by (simp add: defaults_def)

lemma defaults_Cons:
  "defaults dest ((k, v) # src) =
     defaults (if doc_get dest k = Undefined then obj_set dest k v else dest) src"
  by (simp add: defaults_def)

lemma defaults_keeps:
  "doc_get dest k \<noteq> Undefined \<Longrightarrow> doc_get (defaults dest src) k = doc_get dest k"
proof (induction src arbitrary: dest)
  case Nil
  show ?case by (simp add: defaults_Nil)
next
  case (Cons kv src)
  obtain k' v' where kv: "kv = (k', v')" by (cases kv)
  let ?d = "if doc_get dest k' = Undefined then obj_set dest k' v' else dest"
  have same: "doc_get ?d k = doc_get dest k"
    using Cons.prems by (auto simp: doc_get_obj_set)
  with Cons.prems have "doc_get ?d k \<noteq> Undefined" by simp
  from Cons.IH [OF this] same show ?case by (simp add: kv defaults_Cons)
qed


lemma core_security:
  "doc_get (coreDocument h opts) ''security'' = securityOf (securitySchemes opts)"
  by (simp add: coreDocument_def doc_get_def)

lemma defaults_keeps_eq:
  "doc_get dest k = v \<Longrightarrow> v \<noteq> Undefined \<Longrightarrow> doc_get (defaults dest src) k = v"
  using defaults_keeps [of dest k src] by simp

lemma base_security:
  assumes "securitySchemes opts = Schemes ss"
  shows "doc_get (generateSwaggerObjectBase h opts app) ''security'' =
           Security (map (\<lambda>type. [(type, [])]) (obj_keys ss))"
  unfolding generateSwaggerObjectBase_def Let_def
  by (intro defaults_keeps_eq) (simp_all add: core_security securityOf_def assms)

lemma base_paths_tags_components:
  "doc_get (generateSwaggerObjectBase h opts app) ''paths'' = Paths []"
  "doc_get (generateSwaggerObjectBase h opts app) ''tags'' = Tags []"
  "doc_get (generateSwaggerObjectBase h opts app) ''components'' =
     Components [] (securitySchemes opts)"
  unfolding generateSwaggerObjectBase_def Let_def
  by (intro defaults_keeps_eq; simp add: coreDocument_def doc_get_def)+

lemma finalize_frame:
  "k \<noteq> ''components'' \<Longrightarrow> k \<noteq> ''paths'' \<Longrightarrow> k \<noteq> ''tags'' \<Longrightarrow>
   doc_get (finalize h opts tgs d st) k = doc_get d k"
  by (simp add: finalize_def doc_get_obj_set split: prod.split)

lemma createSwaggerObject_Inr:
  "createSwaggerObject h app opts0 = Inr (doc, ds) \<Longrightarrow>
   \<exists>st. forEachRoute h (optionDefaults (packageJson h) app opts0) (classes app) (routes app)
          \<lparr>registries = registerModels h (optionDefaults (packageJson h) app opts0) (models app),
           paths = [], reported = []\<rparr> = Inr st
      \<and> doc = finalize h (optionDefaults (packageJson h) app opts0) (tagCandidates h (classes app))
                (generateSwaggerObjectBase h (optionDefaults (packageJson h) app opts0) app) st
      \<and> ds = reported st"
  by (auto simp: createSwaggerObject_def Let_def split: sum.splits)

subsection \<open>The loop over the routes\<close>

lemma forEachRoute_append:
  "forEachRoute h opts cs (rs1 @ rs2) st =
     (case forEachRoute h opts cs rs1 st of
        Inl e \<Rightarrow> Inl e
      | Inr st' \<Rightarrow> forEachRoute h opts cs rs2 st')"
  by (induction rs1 arbitrary: st) (auto split: sum.splits)

lemma execClassMethod_no_dot:
  "CHR ''.'' \<notin> set s \<Longrightarrow> execClassMethod s = None"
proof -
  assume "CHR ''.'' \<notin> set s"
  then have "dropWhile (\<lambda>c. c \<noteq> CHR ''.'') s = []"
    by (auto simp: dropWhile_eq_Nil_conv)
  then show ?thesis by (simp add: execClassMethod_def Let_def)
qed

lemma routeStep_no_dot:
  "documented r \<Longrightarrow> CHR ''.'' \<notin> set (method r) \<Longrightarrow> routeStep h opts cs r st = Inl TypeError"
  by (simp add: routeStep_def parseRouteMethod_def execClassMethod_no_dot)

lemma forEachRoute_throws:
  "r \<in> set rs \<Longrightarrow> documented r \<Longrightarrow> CHR ''.'' \<notin> set (method r)
     \<Longrightarrow> forEachRoute h opts cs rs st = Inl TypeError"
proof (induction rs arbitrary: st)
  case Nil
  then show ?case by simp
next
  case (Cons q rs)
  show ?case
  proof (cases "routeStep h opts cs q st")
    case (Inl e)
    then show ?thesis by (cases e) simp
  next
    case (Inr st')
    with Cons.prems have "q \<noteq> r" by (auto simp: routeStep_no_dot)
    with Cons.prems have "r \<in> set rs" by simp
    from Cons.IH [OF this Cons.prems(2,3)] Inr show ?thesis by simp
  qed
qed

lemma routeStep_orphan:
  "documented r \<Longrightarrow> parseRouteMethod (method r) = Inr (className, mName)
     \<Longrightarrow> findClass cs className = None
     \<Longrightarrow> routeStep h opts cs r st = Inr (st\<lparr>reported := reported st @ [r]\<rparr>)"
  by (simp add: routeStep_def)

lemma routeStep_frame:
  "routeStep h opts cs r (st\<lparr>reported := pre @ reported st\<rparr>) =
     map_sum id (\<lambda>st'. st'\<lparr>reported := pre @ reported st'\<rparr>) (routeStep h opts cs r st)"
  by (auto simp: routeStep_def callAddRoute_def split: sum.splits option.splits prod.splits)

lemma forEachRoute_frame:
  "forEachRoute h opts cs rs (st\<lparr>reported := pre @ reported st\<rparr>) =
     map_sum id (\<lambda>st'. st'\<lparr>reported := pre @ reported st'\<rparr>) (forEachRoute h opts cs rs st)"
proof (induction rs arbitrary: st)
  case Nil
  show ?case by simp
next
  case (Cons r rs)
  show ?case
  proof (cases "routeStep h opts cs r st")
    case (Inl e)
    then show ?thesis by (simp add: routeStep_frame)
  next
    case (Inr st')
    then show ?thesis using Cons.IH [of st'] by (simp add: routeStep_frame)
  qed
qed

lemma finalize_reported:
  "finalize h opts tgs d (st\<lparr>reported := ds\<rparr>) = finalize h opts tgs d st"
  by (simp add: finalize_def)


lemma forEachRoute_log:
  "forEachRoute h opts cs rs (st\<lparr>reported := pre\<rparr>) =
     map_sum id (\<lambda>st'. st'\<lparr>reported := pre @ reported st'\<rparr>)
       (forEachRoute h opts cs rs (st\<lparr>reported := []\<rparr>))"
  using forEachRoute_frame [where st = "st\<lparr>reported := []\<rparr>" and pre = pre] by simp

lemma findClass_None:
  "\<forall>c\<in>set cs. name c \<noteq> Some className \<Longrightarrow> findClass cs className = None"
  by (simp add: findClass_def filter_False)

lemma forEachRoute_skip:
  assumes "\<And>st. routeStep h opts cs r st = Inr st"
  shows "forEachRoute h opts cs (before @ r # after) st = forEachRoute h opts cs (before @ after) st"
  by (simp add: forEachRoute_append assms split: sum.splits)

lemma createSwaggerObject_skip:
  assumes "\<And>st. routeStep h (optionDefaults (packageJson h) app opts) (classes app) r st = Inr st"
    and "routes app = before @ r # after"
  shows "createSwaggerObject h app opts = createSwaggerObject h (app\<lparr>routes := before @ after\<rparr>) opts"
proof -
  have same_opts: "optionDefaults (packageJson h) (app\<lparr>routes := before @ after\<rparr>) opts
                     = optionDefaults (packageJson h) app opts"
    by (simp add: optionDefaults_def cong: option.case_cong)
  have same_base: "generateSwaggerObjectBase h o' (app\<lparr>routes := before @ after\<rparr>)
                     = generateSwaggerObjectBase h o' app" for o'
    by (simp add: generateSwaggerObjectBase_def)
  show ?thesis
    by (simp add: createSwaggerObject_def Let_def same_opts same_base assms(2)
        forEachRoute_skip [OF assms(1)])
qed

lemma routeStep_returns:
  assumes "documented r \<longrightarrow> parseRouteMethod (method r) \<noteq> Inl TypeError"
  shows "\<exists>st'. routeStep h opts cs r st = Inr st'"
proof (cases "documented r")
  case False
  then show ?thesis by (simp add: routeStep_def)
next
  case True
  with assms obtain className mName where "parseRouteMethod (method r) = Inr (className, mName)"
    by (cases "parseRouteMethod (method r)") (auto intro: jserror.exhaust)
  with True show ?thesis by (simp add: routeStep_def split: option.split)
qed

lemma forEachRoute_returns:
  "\<forall>q\<in>set rs. documented q \<longrightarrow> parseRouteMethod (method q) \<noteq> Inl TypeError \<Longrightarrow>
   \<exists>st'. forEachRoute h opts cs rs st = Inr st'"
proof (induction rs arbitrary: st)
  case Nil
  show ?case by simp
next
  case (Cons r rs)
  from Cons.prems have "documented r \<longrightarrow> parseRouteMethod (method r) \<noteq> Inl TypeError" by simp
  from routeStep_returns [OF this] obtain st1 where s1: "routeStep h opts cs r st = Inr st1"
    by blast
  from Cons.prems have "\<forall>q\<in>set rs. documented q \<longrightarrow> parseRouteMethod (method q) \<noteq> Inl TypeError"
    by simp
  from Cons.IH [OF this] obtain st' where "forEachRoute h opts cs rs st1 = Inr st'" by blast
  with s1 show ?case by simp
qed

lemma createSwaggerObject_returns:
  "\<forall>q\<in>set (routes app). documented q \<longrightarrow> parseRouteMethod (method q) \<noteq> Inl TypeError \<Longrightarrow>
   \<exists>doc ds. createSwaggerObject h app opts = Inr (doc, ds)"
proof -
  assume a: "\<forall>q\<in>set (routes app). documented q \<longrightarrow> parseRouteMethod (method q) \<noteq> Inl TypeError"
  let ?opts = "optionDefaults (packageJson h) app opts"
  from forEachRoute_returns [OF a] obtain st' where
    "forEachRoute h ?opts (classes app) (routes app)
       \<lparr>registries = registerModels h ?opts (models app), paths = [], reported = []\<rparr> = Inr st'"
    by blast
  then show ?thesis by (simp add: createSwaggerObject_def Let_def)
qed

lemma orphan_route_same_document:
  assumes "documented r"
    and "parseRouteMethod (method r) = Inr (className, mName)"
    and "\<forall>c\<in>set (classes app). name c \<noteq> Some className"
    and "routes app = before @ r # after"
    and "createSwaggerObject h (app\<lparr>routes := before @ after\<rparr>) opts = Inr (doc, ds)"
  shows "\<exists>ds'. createSwaggerObject h app opts = Inr (doc, ds') \<and> r \<in> set ds'"
proof -
  let ?opts = "optionDefaults (packageJson h) app opts"
  let ?cs = "classes app"
  let ?st0 = "\<lparr>registries = registerModels h ?opts (models app), paths = [], reported = []\<rparr>"
  let ?base = "generateSwaggerObjectBase h ?opts app"
  let ?tgs = "tagCandidates h ?cs"
  have same_opts: "optionDefaults (packageJson h) (app\<lparr>routes := before @ after\<rparr>) opts = ?opts"
    by (simp add: optionDefaults_def cong: option.case_cong)
  have same_base: "generateSwaggerObjectBase h ?opts (app\<lparr>routes := before @ after\<rparr>) = ?base"
    by (simp add: generateSwaggerObjectBase_def)
  from createSwaggerObject_Inr [OF assms(5)] obtain st where
    run: "forEachRoute h ?opts ?cs (before @ after) ?st0 = Inr st"
    and doc: "doc = finalize h ?opts ?tgs ?base st"
    by (auto simp: same_opts same_base)
  from run obtain st1 where
    run1: "forEachRoute h ?opts ?cs before ?st0 = Inr st1"
    and run2: "forEachRoute h ?opts ?cs after st1 = Inr st"
    by (auto simp: forEachRoute_append split: sum.splits)
  from run2 obtain sx where
    runx: "forEachRoute h ?opts ?cs after (st1\<lparr>reported := []\<rparr>) = Inr sx"
    and st: "st = sx\<lparr>reported := reported st1 @ reported sx\<rparr>"
    using forEachRoute_log [where st = st1 and pre = "reported st1" and rs = after and h = h and opts = ?opts and cs = ?cs]
    by (cases "forEachRoute h ?opts ?cs after (st1\<lparr>reported := []\<rparr>)") auto
  have step: "routeStep h ?opts ?cs r st1 = Inr (st1\<lparr>reported := reported st1 @ [r]\<rparr>)"
    using assms(1,2) findClass_None [OF assms(3)] by (rule routeStep_orphan)
  have "forEachRoute h ?opts ?cs (routes app) ?st0 =
          forEachRoute h ?opts ?cs after (st1\<lparr>reported := reported st1 @ [r]\<rparr>)"
    by (simp add: assms(4) forEachRoute_append run1 step)
  also have "\<dots> = Inr (sx\<lparr>reported := (reported st1 @ [r]) @ reported sx\<rparr>)"
    using forEachRoute_log [where st = st1 and pre = "reported st1 @ [r]" and rs = after and h = h and opts = ?opts and cs = ?cs] runx by simp
  finally have "createSwaggerObject h app opts =
      Inr (finalize h ?opts ?tgs ?base (sx\<lparr>reported := (reported st1 @ [r]) @ reported sx\<rparr>),
           (reported st1 @ [r]) @ reported sx)"
    by (simp add: createSwaggerObject_def Let_def)
  moreover have "finalize h ?opts ?tgs ?base (sx\<lparr>reported := (reported st1 @ [r]) @ reported sx\<rparr>) = doc"
    by (simp add: doc st finalize_reported)
  ultimately show ?thesis by simp
qed

subsection \<open>Key order of the paths and of the schemas\<close>

lemma keys_obj_set:
  "\<not> isArrayIndex k \<Longrightarrow>
   map fst (obj_set kvs k v) = (if k \<in> set (map fst kvs) then map fst kvs else map fst kvs @ [k])"
  by (simp add: keys_obj_set_old keys_obj_set_new)

lemma fold_keys_distinct:
  assumes "\<And>x a. distinct (keys a) \<Longrightarrow> distinct (keys (F x a))"
    and "distinct (keys acc)"
  shows "distinct (keys (fold F xs acc))"
  using assms(2) by (induction xs arbitrary: acc) (simp_all add: assms(1))

lemma fold_keys_set:
  assumes "\<And>x a. K (F x a) = insert (kf x) (K a)"
  shows "K (fold F xs acc) = K acc \<union> kf ` set xs"
  by (induction xs arbitrary: acc) (auto simp: assms)

lemma fold_obj_set_fresh:
  "distinct ks \<Longrightarrow> \<forall>k\<in>set ks. \<not> isArrayIndex k \<and> k \<notin> fst ` set acc \<Longrightarrow>
   fold (\<lambda>k a. obj_set a k (f k)) ks acc = acc @ map (\<lambda>k. (k, f k)) ks"
proof (induction ks arbitrary: acc)
  case Nil
  show ?case by simp
next
  case (Cons k ks)
  have step: "obj_set acc k (f k) = acc @ [(k, f k)]"
    using Cons.prems(2)
    by (simp add: obj_set_def) (induction acc; auto)
  have "fold (\<lambda>k a. obj_set a k (f k)) ks (acc @ [(k, f k)]) =
          (acc @ [(k, f k)]) @ map (\<lambda>k. (k, f k)) ks"
    using Cons.prems by (intro Cons.IH) auto
  then show ?case by (simp add: step)
qed

lemma httpMethods_plain:
  "distinct httpMethods" "\<forall>m\<in>set httpMethods. \<not> isArrayIndex m"
  by code_simp+

lemma fold_keys_strict_sorted:
  assumes "\<And>x a. x \<in> set xs \<Longrightarrow>
             keys (F x a) = (if kf x \<in> set (keys a) then keys a else keys a @ [kf x])"
    and "sorted (map kf xs)"
    and "sorted_wrt (<) (keys acc)"
    and "\<forall>a\<in>set (keys acc). \<forall>x\<in>set xs. a \<le> kf x"
  shows "sorted_wrt (<) (keys (fold F xs acc))"
  using assms
proof (induction xs arbitrary: acc)
  case Nil
  then show ?case by simp
next
  case (Cons x xs)
  have step: "keys (F x acc) = (if kf x \<in> set (keys acc) then keys acc else keys acc @ [kf x])"
    by (rule Cons.prems(1)) simp
  have below: "\<forall>a\<in>set (keys acc). a \<le> kf x" using Cons.prems(4) by simp
  have s1: "sorted_wrt (<) (keys (F x acc))"
  proof (cases "kf x \<in> set (keys acc)")
    case True
    with step Cons.prems(3) show ?thesis by simp
  next
    case False
    with below have "\<forall>a\<in>set (keys acc). a < kf x" by (metis order_le_imp_less_or_eq)
    with step False Cons.prems(3) show ?thesis by (simp add: sorted_wrt_append)
  qed
  have s2: "\<forall>a\<in>set (keys (F x acc)). \<forall>y\<in>set xs. a \<le> kf y"
    using step Cons.prems(2,4) by (auto split: if_splits)
  have "sorted_wrt (<) (keys (fold F xs (F x acc)))"
  proof (rule Cons.IH)
    show "keys (F y a) = (if kf y \<in> set (keys a) then keys a else keys a @ [kf y])"
      if "y \<in> set xs" for y a
      using that by (intro Cons.prems(1)) simp
    show "sorted (map kf xs)" using Cons.prems(2) by simp
  qed (rule s1, rule s2)
  then show ?case by simp
qed

lemma fst_copyMethod:
  "fst (copyMethod item m acc) = obj_set (fst acc) m (map_of item m)"
  by (simp add: copyMethod_def Let_def split: prod.split)

lemma fst_fold_copyMethod:
  "fst (fold (copyMethod item) ms acc) = fold (\<lambda>m slots. obj_set slots m (map_of item m)) ms (fst acc)"
  by (induction ms arbitrary: acc) (simp_all add: fst_copyMethod)

lemma pathItemOf_copyMethod:
  "fst (fold (copyMethod item) httpMethods ([], usedTags)) = pathItemOf item"
  using httpMethods_plain
  by (simp only: fst_fold_copyMethod) (simp add: pathItemOf_def fold_obj_set_fresh)

lemma fst_copyPath:
  "fst (copyPath grid current acc) = obj_set (fst acc) current (pathItemOf (gridItem grid current))"
proof -
  obtain docPaths usedTags where acc: "acc = (docPaths, usedTags)" by (cases acc)
  obtain slots u where f: "fold (copyMethod (gridItem grid current)) httpMethods ([], usedTags) = (slots, u)"
    by (cases "fold (copyMethod (gridItem grid current)) httpMethods ([], usedTags)")
  from pathItemOf_copyMethod [of "gridItem grid current" usedTags] f
  have "slots = pathItemOf (gridItem grid current)" by simp
  then show ?thesis by (simp add: copyPath_def acc f)
qed

lemma copyPaths_keys:
  "fst ` set (fst (copyPaths grid)) = fst ` set grid"
proof -
  have "fst ` set (fst (fold (copyPath grid) xs acc)) = fst ` set (fst acc) \<union> (\<lambda>k. k) ` set xs"
    for xs acc
    by (rule fold_keys_set [where K = "\<lambda>acc. fst ` set (fst acc)" and kf = "\<lambda>k. k"])
       (simp add: fst_copyPath set_keys_obj_set)
  then show ?thesis by (simp add: copyPaths_def obj_keys_def)
qed

lemma copyPaths_distinct:
  "distinct (map fst (fst (copyPaths grid)))"
  unfolding copyPaths_def
  by (rule fold_keys_distinct [where keys = "\<lambda>acc. map fst (fst acc)"])
     (simp_all add: fst_copyPath distinct_keys_obj_set)

lemma copyPaths_sorted:
  assumes "\<forall>k\<in>fst ` set grid. \<not> isArrayIndex k"
  shows "sorted_wrt (<) (map fst (fst (copyPaths grid)))"
  unfolding copyPaths_def
proof (rule fold_keys_strict_sorted [where keys = "\<lambda>acc. map fst (fst acc)" and kf = "\<lambda>k. k"])
  fix x a
  assume "x \<in> set (sort (obj_keys grid))"
  then have "\<not> isArrayIndex x" using assms by (auto simp: obj_keys_def)
  then show "map fst (fst (copyPath grid x a)) =
               (if x \<in> set (map fst (fst a)) then map fst (fst a) else map fst (fst a) @ [x])"
    unfolding fst_copyPath by (rule keys_obj_set)
qed simp_all

lemma sortedSchema_step:
  assumes "k \<in> fst ` set schemas"
  shows "(case map_of schemas k of None \<Rightarrow> a | Some schema \<Rightarrow> obj_set a k schema)
           = obj_set a k (case map_of schemas k of None \<Rightarrow> undefined | Some schema \<Rightarrow> schema)"
proof -
  from assms obtain v where "map_of schemas k = Some v"
    by (metis domD dom_map_of_conv_image_fst)
  then show ?thesis by simp
qed

lemma sortedSchema_fold:
  "sortedSchema schemas =
     fold (\<lambda>k a. obj_set a k (case map_of schemas k of None \<Rightarrow> undefined | Some schema \<Rightarrow> schema))
       (sort (obj_keys schemas)) []"
  unfolding sortedSchema_def
  by (rule fold_cong) (simp_all add: sortedSchema_step obj_keys_def)

lemma sortedSchema_keys:
  "fst ` set (sortedSchema schemas) = fst ` set schemas"
proof -
  have "fst ` set (fold (\<lambda>k a. obj_set a k (case map_of schemas k of None \<Rightarrow> undefined | Some schema \<Rightarrow> schema))
                 xs acc) =
          fst ` set acc \<union> (\<lambda>k. k) ` set xs"
    for xs acc
    by (rule fold_keys_set [where K = "\<lambda>acc. fst ` set acc" and kf = "\<lambda>k. k"])
       (simp add: set_keys_obj_set)
  then show ?thesis by (simp add: sortedSchema_fold obj_keys_def)
qed

lemma sortedSchema_distinct:
  "distinct (map fst (sortedSchema schemas))"
  unfolding sortedSchema_fold
  by (rule fold_keys_distinct [where keys = "map fst"]) (simp_all add: distinct_keys_obj_set)

lemma sortedSchema_sorted:
  assumes "\<forall>k\<in>fst ` set schemas. \<not> isArrayIndex k"
  shows "sorted_wrt (<) (map fst (sortedSchema schemas))"
  unfolding sortedSchema_fold
proof (rule fold_keys_strict_sorted [where keys = "map fst" and kf = "\<lambda>k. k"])
  fix x and a :: "(string \<times> 'a) list"
  assume "x \<in> set (sort (obj_keys schemas))"
  then have "\<not> isArrayIndex x" using assms by (auto simp: obj_keys_def)
  then show "map fst (obj_set a x (case map_of schemas x of None \<Rightarrow> undefined | Some schema \<Rightarrow> schema)) =
               (if x \<in> set (map fst a) then map fst a else map fst a @ [x])"
    by (rule keys_obj_set)
qed simp_all

lemma assign_keys:
  "fst ` set (assign [] src) = fst ` set src"
proof -
  have "fst ` set (fold (\<lambda>(k, v) d. obj_set d k v) src acc) = fst ` set acc \<union> fst ` set src"
    for acc :: "(string \<times> 'a) list"
    by (rule fold_keys_set [where K = "\<lambda>acc. fst ` set acc" and kf = fst])
       (simp add: set_keys_obj_set split_beta)
  then show ?thesis by (simp add: assign_def)
qed

lemma assign_distinct:
  "distinct (map fst (assign [] src))"
  unfolding assign_def
  by (rule fold_keys_distinct [where keys = "map fst"])
     (simp_all add: distinct_keys_obj_set split_beta)

lemma assign_sorted:
  fixes src :: "(string \<times> 'v) list"
  assumes "sorted_wrt (<) (map fst src)" and "\<forall>k\<in>fst ` set src. \<not> isArrayIndex k"
  shows "sorted_wrt (<) (map fst (assign [] src))"
  unfolding assign_def
proof (rule fold_keys_strict_sorted [where keys = "map fst" and kf = fst])
  show "sorted (map fst src)" using assms(1) by (simp add: strict_sorted_iff)
  fix x and a :: "(string \<times> 'v) list"
  assume "x \<in> set src"
  with assms(2) have "\<not> isArrayIndex (fst x)" by simp
  then show "map fst ((case x of (k, v) \<Rightarrow> \<lambda>d. obj_set d k v) a) =
          (if fst x \<in> set (map fst a) then map fst a else map fst a @ [fst x])"
    by (cases x) (simp add: keys_obj_set)
qed simp_all

lemma finalize_paths:
  "doc_get (finalize h opts tgs d st) ''paths'' = Paths (fst (copyPaths (paths st)))"
  by (simp add: finalize_def doc_get_obj_set split: prod.split)

lemma finalize_tags:
  "doc_get (finalize h opts tgs d st) ''tags'' = Tags (usedTagsFilter (snd (copyPaths (paths st))) tgs)"
  by (simp add: finalize_def doc_get_obj_set split: prod.split)

lemma finalize_components:
  "doc_get (finalize h opts tgs d st) ''components'' =
     Components (assign [] (sortedSchema (getSchemas h (registries st)))) (securitySchemes opts)"
  by (simp add: finalize_def doc_get_obj_set split: prod.split)

subsection \<open>The tags marked as used\<close>

lemma usedSet_markUsed:
  "usedSet (markUsed tg u) = usedSet u \<union> ({tg} - {''__proto__''})"
  by (auto simp: markUsed_def usedSet_def map_of_obj_set)

lemma usedSet_mark:
  "usedSet (fold markUsed ts u) = usedSet u \<union> (set ts - {''__proto__''})"
  by (induction ts arbitrary: u) (auto simp: usedSet_markUsed)

lemma usedSet_copyMethod:
  "usedSet (snd (copyMethod item m acc)) = usedSet (snd acc) \<union> (tagsIn item [m] - {''__proto__''})"
  by (auto simp: copyMethod_def Let_def usedSet_mark tagsIn_def split: prod.split option.split)

lemma usedSet_fold_copyMethod:
  "usedSet (snd (fold (copyMethod item) ms acc)) = usedSet (snd acc) \<union> (tagsIn item ms - {''__proto__''})"
proof (induction ms arbitrary: acc)
  case Nil
  show ?case by (simp add: tagsIn_def)
next
  case (Cons m ms)
  have "tagsIn item (m # ms) = tagsIn item [m] \<union> tagsIn item ms"
    by (auto simp: tagsIn_def)
  then show ?case by (auto simp: Cons.IH usedSet_copyMethod)
qed

lemma usedSet_copyPath:
  "usedSet (snd (copyPath grid current acc)) =
     usedSet (snd acc) \<union> (tagsIn (gridItem grid current) httpMethods - {''__proto__''})"
proof -
  obtain docPaths usedTags where acc: "acc = (docPaths, usedTags)" by (cases acc)
  obtain slots u where f: "fold (copyMethod (gridItem grid current)) httpMethods ([], usedTags) = (slots, u)"
    by (cases "fold (copyMethod (gridItem grid current)) httpMethods ([], usedTags)")
  from usedSet_fold_copyMethod [of "gridItem grid current" httpMethods "([], usedTags)"] f
  have "usedSet u = usedSet usedTags \<union> (tagsIn (gridItem grid current) httpMethods - {''__proto__''})"
    by simp
  then show ?thesis by (simp add: copyPath_def acc f)
qed

lemma usedSet_fold_copyPath:
  "usedSet (snd (fold (copyPath grid) ks acc)) =
     usedSet (snd acc) \<union> ((\<Union>k\<in>set ks. tagsIn (gridItem grid k) httpMethods) - {''__proto__''})"
  by (induction ks arbitrary: acc) (auto simp: usedSet_copyPath)

lemma fold_invariant:
  assumes "\<And>x a. P a \<Longrightarrow> P (F x a)" and "P acc"
  shows "P (fold F xs acc)"
  using assms(2) by (induction xs arbitrary: acc) (simp_all add: assms(1))

lemma marks_markUsed:
  "\<forall>n. map_of u n \<noteq> Some False \<Longrightarrow> \<forall>n. map_of (markUsed tg u) n \<noteq> Some False"
  by (simp add: markUsed_def map_of_obj_set)

lemma marks_copyMethod:
  "\<forall>n. map_of (snd acc) n \<noteq> Some False \<Longrightarrow> \<forall>n. map_of (snd (copyMethod item m acc)) n \<noteq> Some False"
proof -
  assume a: "\<forall>n. map_of (snd acc) n \<noteq> Some False"
  have "\<forall>n. map_of (fold markUsed ts (snd acc)) n \<noteq> Some False" for ts
    by (rule fold_invariant [where P = "\<lambda>u. \<forall>n. map_of u n \<noteq> Some False"])
       (erule marks_markUsed, rule a)
  with a show ?thesis
    by (cases acc) (simp add: copyMethod_def Let_def split: option.split)
qed

lemma marks_copyPath:
  assumes "\<forall>n. map_of (snd acc) n \<noteq> Some False"
  shows "\<forall>n. map_of (snd (copyPath grid current acc)) n \<noteq> Some False"
proof -
  obtain docPaths usedTags where acc: "acc = (docPaths, usedTags)" by (cases acc)
  have "\<forall>n. map_of (snd (fold (copyMethod (gridItem grid current)) httpMethods ([], usedTags))) n \<noteq> Some False"
    by (rule fold_invariant [where P = "\<lambda>a. \<forall>n. map_of (snd a) n \<noteq> Some False"])
       (erule marks_copyMethod, use assms acc in simp)
  then show ?thesis by (auto simp: copyPath_def acc split: prod.splits)
qed

lemma marks_copyPaths:
  "\<forall>n. map_of (snd (copyPaths grid)) n \<noteq> Some False"
  unfolding copyPaths_def
  by (rule fold_invariant [where P = "\<lambda>a. \<forall>n. map_of (snd a) n \<noteq> Some False"])
     (erule marks_copyPath, simp)

lemma truthyProperty_marks:
  assumes "\<forall>n. map_of u n \<noteq> Some False"
  shows "truthyProperty u n \<longleftrightarrow> n \<in> usedSet u \<or> n \<in> set objectPrototypeNames"
proof (cases "map_of u n")
  case None
  then show ?thesis by (simp add: truthyProperty_def usedSet_def)
next
  case (Some b)
  with assms have "b" by (cases b) auto
  with Some show ?thesis by (simp add: truthyProperty_def usedSet_def)
qed

lemma set_replaceOrAppend_same:
  "\<forall>(k', v')\<in>set a. v' = g k' \<Longrightarrow> set (replaceOrAppend a k (g k)) = insert (k, g k) (set a)"
  by (induction a) (auto split: if_splits)

lemma set_obj_set_same:
  "\<forall>(k', v')\<in>set a. v' = g k' \<Longrightarrow> set (obj_set a k (g k)) = insert (k, g k) (set a)"
  by (simp add: obj_set_def set_insertIndex set_replaceOrAppend_same)

lemma set_fold_obj_set:
  "\<forall>(k', v')\<in>set a. v' = g k' \<Longrightarrow>
   set (fold (\<lambda>k d. obj_set d k (g k)) ks a) = set a \<union> (\<lambda>k. (k, g k)) ` set ks"
proof (induction ks arbitrary: a)
  case Nil
  show ?case by simp
next
  case (Cons k ks)
  have s: "set (obj_set a k (g k)) = insert (k, g k) (set a)"
    by (rule set_obj_set_same) (rule Cons.prems)
  have "\<forall>(k', v')\<in>set (obj_set a k (g k)). v' = g k'"
    unfolding s using Cons.prems by auto
  from Cons.IH [OF this] s show ?case by auto
qed

lemma fst_fold_copyPath:
  "fst (fold (copyPath grid) ks acc) =
     fold (\<lambda>k d. obj_set d k (pathItemOf (gridItem grid k))) ks (fst acc)"
  by (induction ks arbitrary: acc) (simp_all add: fst_copyPath)

lemma set_copyPaths:
  "set (fst (copyPaths grid)) = (\<lambda>k. (k, pathItemOf (gridItem grid k))) ` fst ` set grid"
  by (simp add: copyPaths_def fst_fold_copyPath set_fold_obj_set obj_keys_def)

lemma usedSet_Nil: "usedSet [] = {}"
  by (simp add: usedSet_def)

lemma usedSet_copyPaths:
  "usedSet (snd (copyPaths grid)) =
     (\<Union>k\<in>fst ` set grid. tagsIn (gridItem grid k) httpMethods) - {''__proto__''}"
  by (simp add: copyPaths_def usedSet_fold_copyPath obj_keys_def usedSet_Nil)

lemma set_operationsOf:
  "set (operationsOf ps) = {d. \<exists>current slots m. (current, slots) \<in> set ps \<and> (m, Some d) \<in> set slots}"
  by (auto simp: operationsOf_def split: option.splits) 

lemma set_usedTagNames:
  "set (usedTagNames ps) =
     {n. \<exists>current slots m d. (current, slots) \<in> set ps \<and> (m, Some d) \<in> set slots \<and> n \<in> set (tags d)}"
  by (auto simp: usedTagNames_def set_operationsOf)

lemma pathItemOf_slot:
  "(m, Some d) \<in> set (pathItemOf item) \<longleftrightarrow> m \<in> set httpMethods \<and> map_of item m = Some d"
  by (auto simp: pathItemOf_def)

lemma used_names_copyPaths:
  "usedSet (snd (copyPaths grid)) = set (usedTagNames (fst (copyPaths grid))) - {''__proto__''}"
proof -
  have "n \<in> set (usedTagNames (fst (copyPaths grid))) \<longleftrightarrow>
          n \<in> (\<Union>k\<in>fst ` set grid. tagsIn (gridItem grid k) httpMethods)" for n
  proof -
    have "n \<in> set (usedTagNames (fst (copyPaths grid))) \<longleftrightarrow>
            (\<exists>k\<in>fst ` set grid. \<exists>m d. (m, Some d) \<in> set (pathItemOf (gridItem grid k)) \<and> n \<in> set (tags d))"
      unfolding set_usedTagNames set_copyPaths by blast
    also have "\<dots> \<longleftrightarrow> (\<exists>k\<in>fst ` set grid. n \<in> tagsIn (gridItem grid k) httpMethods)"
      unfolding pathItemOf_slot tagsIn_def by blast
    finally show ?thesis by blast
  qed
  then have "set (usedTagNames (fst (copyPaths grid))) =
               (\<Union>k\<in>fst ` set grid. tagsIn (gridItem grid k) httpMethods)"
    by blast
  then show ?thesis by (simp only: usedSet_copyPaths)
qed

lemma insertBy_compareTags:
  "insertBy compareTags x ys = insort_key tagName x ys"
  by (induction ys) (auto simp: compareTags_def)

lemma sortBy_compareTags:
  "sortBy compareTags xs = sort_key tagName (rev xs)"
proof -
  have "insertBy compareTags = insort_key tagName"
    by (intro ext) (rule insertBy_compareTags)
  then show ?thesis by (simp add: sortBy_def sort_key_def foldr_conv_fold)
qed

lemma usedTagsFilter_eq:
  assumes "\<forall>n. map_of usedTags n \<noteq> Some False"
  shows "usedTagsFilter usedTags tgs =
           sort_key tagName (rev (filter (\<lambda>tg. tagName tg \<in> usedSet usedTags \<or> tagName tg \<in> set objectPrototypeNames) tgs))"
proof -
  have "filter (\<lambda>tg. truthyProperty usedTags (tagName tg)) tgs =
          filter (\<lambda>tg. tagName tg \<in> usedSet usedTags \<or> tagName tg \<in> set objectPrototypeNames) tgs"
    by (rule filter_cong) (simp_all add: truthyProperty_marks [OF assms])
  then show ?thesis by (simp add: usedTagsFilter_def sortBy_compareTags)
qed

lemma usedTagsFilter_keep:
  assumes "\<forall>n. map_of u n \<noteq> Some False" and "usedSet u = U - {''__proto__''}"
  shows "usedTagsFilter u cands =
           sort_key tagName (rev (filter (\<lambda>tg. tagName tg \<in> U \<or> tagName tg \<in> set objectPrototypeNames) cands))"
proof -
  have proto: "''__proto__'' \<in> set objectPrototypeNames"
    by (simp add: objectPrototypeNames_def)
  have "(n \<in> usedSet u \<or> n \<in> set objectPrototypeNames) = (n \<in> U \<or> n \<in> set objectPrototypeNames)" for n
    unfolding assms(2) using proto by blast
  then show ?thesis by (simp only: usedTagsFilter_eq [OF assms(1)])
qed

lemma count_kept:
  assumes "n \<in> U"
  shows "length (filter (\<lambda>t. tagName t = n)
           (sort_key tagName (rev (filter (\<lambda>tg. tagName tg \<in> U \<or> Q tg) cands)))) =
         length (filter (\<lambda>t. tagName t = n) cands)"
proof -
  have "filter (\<lambda>t. tagName t = n) (filter (\<lambda>tg. tagName tg \<in> U \<or> Q tg) cands) =
        filter (\<lambda>t. tagName t = n) cands"
    unfolding filter_filter by (rule filter_cong) (use assms in auto)
  moreover have "filter (\<lambda>t. tagName t = n) (rev (filter (\<lambda>tg. tagName tg \<in> U \<or> Q tg) cands)) =
        rev (filter (\<lambda>t. tagName t = n) (filter (\<lambda>tg. tagName tg \<in> U \<or> Q tg) cands))"
    by (rule rev_filter [symmetric])
  ultimately have "length (filter (\<lambda>t. tagName t = n) (rev (filter (\<lambda>tg. tagName tg \<in> U \<or> Q tg) cands))) =
             length (filter (\<lambda>t. tagName t = n) cands)"
    by (simp only: length_rev)
  then show ?thesis by (simp only: filter_sort length_sort)
qed

subsection \<open>Where the operations of the grid come from\<close>

lemma map_of_mergeOperation:
  "map_of (mergeOperation grid p m operation) p' =
     (if p' = p then Some (obj_set (gridItem grid p) m operation) else map_of grid p')"
  by (simp add: mergeOperation_def map_of_obj_set)

lemma routeStep_grid:
  assumes "addRouteToSwaggerPaths h = addRouteBySpec mapRoute"
    and "routeStep h opts cs r st = Inr st'"
    and "map_of (paths st') p = Some item"
    and "map_of item m = Some operation"
  shows "(\<exists>item0. map_of (paths st) p = Some item0 \<and> map_of item0 m = Some operation)
       \<or> routeYields mapRoute opts cs r p m operation"
proof (cases "paths st' = paths st")
  case True
  with assms(3,4) show ?thesis by auto
next
  case False
  with assms(2) obtain className mName classDef where
    d: "documented r"
    and pr: "parseRouteMethod (method r) = Inr (className, mName)"
    and fc: "findClass cs className = Some classDef"
    and ps: "passesSwaggerMethods classDef mName"
    and st': "st' = callAddRoute h opts r classDef st"
    by (auto simp: routeStep_def split: if_splits sum.splits option.splits)
  obtain p0 m0 op0 reg' where mr: "mapRoute r classDef (registries st) opts = ((p0, m0, op0), reg')"
    by (metis prod_cases3 surj_pair)
  have grid: "paths st' = mergeOperation (paths st) p0 m0 op0"
    by (simp add: st' callAddRoute_def assms(1) addRouteBySpec_def mr)
  show ?thesis
  proof (cases "p = p0 \<and> m = m0")
    case True
    with assms(3,4) grid have "operation = op0"
      by (auto simp: map_of_mergeOperation map_of_obj_set)
    with True d pr fc ps mr have "routeYields mapRoute opts cs r p m operation"
      unfolding routeYields_def by (metis fst_conv)
    then show ?thesis ..
  next
    case False
    with assms(3,4) grid
    have "\<exists>item0. map_of (paths st) p = Some item0 \<and> map_of item0 m = Some operation"
      by (auto simp: map_of_mergeOperation map_of_obj_set gridItem_def split: if_splits option.splits)
    then show ?thesis ..
  qed
qed

lemma forEachRoute_grid:
  assumes "addRouteToSwaggerPaths h = addRouteBySpec mapRoute"
    and "forEachRoute h opts cs rs st = Inr st'"
    and "map_of (paths st') p = Some item"
    and "map_of item m = Some operation"
  shows "(\<exists>item0. map_of (paths st) p = Some item0 \<and> map_of item0 m = Some operation)
       \<or> (\<exists>r\<in>set rs. routeYields mapRoute opts cs r p m operation)"
  using assms(2)
proof (induction rs arbitrary: st)
  case Nil
  with assms(3,4) show ?case by auto
next
  case (Cons r rs)
  from Cons.prems obtain st1 where
    s1: "routeStep h opts cs r st = Inr st1" and s2: "forEachRoute h opts cs rs st1 = Inr st'"
    by (auto split: sum.splits)
  from Cons.IH [OF s2] show ?case
  proof
    assume "\<exists>item0. map_of (paths st1) p = Some item0 \<and> map_of item0 m = Some operation"
    then obtain item0 where "map_of (paths st1) p = Some item0" "map_of item0 m = Some operation"
      by blast
    from routeStep_grid [OF assms(1) s1 this] show ?thesis by auto
  next
    assume "\<exists>r\<in>set rs. routeYields mapRoute opts cs r p m operation"
    then show ?thesis by auto
  qed
qed

lemma pathItemOf_keys: "map fst (pathItemOf item) = httpMethods"
  by (simp add: pathItemOf_def comp_def)

subsection \<open>Permuting the classes\<close>

lemma findClass_distinct:
  "distinct (map name cs) \<Longrightarrow>
   (findClass cs className = Some c) = (c \<in> set cs \<and> name c = Some className)"
proof (induction cs)
  case Nil
  show ?case by (simp add: findClass_def)
next
  case (Cons c0 cs)
  show ?case
  proof (cases "name c0 = Some className")
    case True
    with Cons.prems have "\<forall>x\<in>set cs. name x \<noteq> Some className" by (auto simp: image_iff)
    with True show ?thesis by (auto simp: findClass_def)
  next
    case False
    then have "findClass (c0 # cs) className = findClass cs className"
      by (simp add: findClass_def)
    with Cons False show ?thesis by auto
  qed
qed

lemma findClass_permuted:
  assumes "set cs' = set cs" and "distinct (map name cs')" and "distinct (map name cs)"
  shows "findClass cs' className = findClass cs className"
proof (cases "findClass cs className")
  case None
  show ?thesis
  proof (cases "findClass cs' className")
    case None
    with \<open>findClass cs className = None\<close> show ?thesis by simp
  next
    case (Some c)
    then have "c \<in> set cs' \<and> name c = Some className"
      by (simp add: findClass_distinct [OF assms(2)])
    then have "findClass cs className = Some c"
      by (simp add: findClass_distinct [OF assms(3)] assms(1))
    with None show ?thesis by simp
  qed
next
  case (Some c)
  then have "c \<in> set cs \<and> name c = Some className"
    by (simp add: findClass_distinct [OF assms(3)])
  then have "findClass cs' className = Some c"
    by (simp add: findClass_distinct [OF assms(2)] assms(1))
  with Some show ?thesis by simp
qed

lemma routeStep_classes:
  assumes "\<And>n. findClass cs' n = findClass cs n"
  shows "routeStep h opts cs' r st = routeStep h opts cs r st"
  by (simp add: routeStep_def assms split: sum.split prod.split)

lemma forEachRoute_classes:
  assumes "\<And>n. findClass cs' n = findClass cs n"
  shows "forEachRoute h opts cs' rs st = forEachRoute h opts cs rs st"
  by (induction rs arbitrary: st) (simp_all add: routeStep_classes [OF assms] cong: sum.case_cong)

lemma sort_key_unique:
  assumes "set xs = set ys" and "distinct (map f xs)" and "distinct (map f ys)"
  shows "sort_key f xs = sort_key f ys"
proof -
  have "map f (sort_key f xs) = map f (sort_key f ys)"
  proof (rule sorted_distinct_set_unique)
    show "distinct (map f (sort_key f xs))" "distinct (map f (sort_key f ys))"
      using assms(2,3) by (simp_all add: distinct_map)
    show "set (map f (sort_key f xs)) = set (map f (sort_key f ys))"
      using assms(1) by simp
  qed simp_all
  moreover have "inj_on f (set (sort_key f xs) \<union> set (sort_key f ys))"
    using assms by (simp add: distinct_map)
  ultimately show ?thesis by (simp add: inj_on_map_eq_map)
qed

lemma usedTagsFilter_permuted:
  assumes "set tgs' = set tgs" and "distinct (map tagName tgs')" and "distinct (map tagName tgs)"
  shows "usedTagsFilter u tgs' = usedTagsFilter u tgs"
  unfolding usedTagsFilter_def sortBy_compareTags
proof (rule sort_key_unique)
  let ?P = "\<lambda>tg. truthyProperty u (tagName tg)"
  show "set (rev (filter ?P tgs')) = set (rev (filter ?P tgs))"
    by (simp add: assms(1))
  have "distinct (map tagName (filter ?P tgs'))"
    using assms(2) by (rule distinct_map_filter)
  then show "distinct (map tagName (rev (filter ?P tgs')))" by (simp only: rev_map [symmetric] distinct_rev)
  have "distinct (map tagName (filter ?P tgs))"
    using assms(3) by (rule distinct_map_filter)
  then show "distinct (map tagName (rev (filter ?P tgs)))" by (simp only: rev_map [symmetric] distinct_rev)
qed

lemma tagCandidates_distinct:
  assumes "distinct (map name cs)" and "inj_on (\<lambda>c. tagName (buildTagFromClass h c)) (set cs)"
  shows "distinct (map tagName (tagCandidates h cs))"
proof -
  let ?eligible = "filter (\<lambda>aClass. truthyText (name aClass) \<and> hasDocumentedMethods aClass) cs"
  have "distinct cs" using assms(1) by (simp add: distinct_map)
  then have "distinct ?eligible" by simp
  moreover have "inj_on (\<lambda>c. tagName (buildTagFromClass h c)) (set ?eligible)"
    by (rule inj_on_subset [OF assms(2)]) simp
  ultimately have "distinct (map (\<lambda>c. tagName (buildTagFromClass h c)) ?eligible)"
    by (simp only: distinct_map)
  then show ?thesis by (simp add: tagCandidates_def comp_def)
qed

subsection \<open>The allow-list of a class\<close>

lemma truthyProperty_only_find:
  assumes "\<forall>k. (map_of allowed k = Some True) = (k = ''find'')"
  shows "truthyProperty allowed mName \<longleftrightarrow>
           mName = ''find'' \<or> (map_of allowed mName = None \<and> mName \<in> set objectPrototypeNames)"
proof -
  from assms have k: "(map_of allowed mName = Some True) = (mName = ''find'')" by (rule spec)
  show ?thesis
  proof (cases "map_of allowed mName")
    case None
    with k have "mName \<noteq> ''find''" by simp
    with None show ?thesis by (simp add: truthyProperty_def)
  next
    case (Some b)
    with k have "b = (mName = ''find'')" by (cases b) simp_all
    with Some show ?thesis by (simp add: truthyProperty_def)
  qed
qed

lemma swaggerMethods_skips_other_names:
  assumes "documented r"
    and "parseRouteMethod (method r) = Inr (className, mName)"
    and "findClass (classes app) className = Some classDef"
    and "swaggerMethods classDef = Some allowed"
    and "\<forall>k. (map_of allowed k = Some True) = (k = ''find'')"
    and "mName \<noteq> ''find''" and "mName \<notin> set objectPrototypeNames"
    and "routes app = before @ r # after"
  shows "createSwaggerObject h app opts = createSwaggerObject h (app\<lparr>routes := before @ after\<rparr>) opts"
proof -
  have "\<not> truthyProperty allowed mName"
    using assms(6,7) by (simp only: truthyProperty_only_find [OF assms(5)]) simp
  then have "\<not> passesSwaggerMethods classDef mName"
    by (simp add: passesSwaggerMethods_def assms(4))
  then have "routeStep h o' (classes app) r s = Inr s" for o' s
    using assms(1,2,3) by (simp add: routeStep_def)
  then show ?thesis by (rule createSwaggerObject_skip) (rule assms(8))
qed

subsection \<open>The extension object\<close>



subsection \<open>The claims\<close>

text \<open>
  C7. A route whose compound method identifier is \<^verbatim>\<open>"widget.prototype.findById"\<close> resolves
  to the class name \<^verbatim>\<open>"widget"\<close> and the method name \<^verbatim>\<open>"findById"\<close>.
\<close>

theorem resolve_widget_prototype_findById:
  "parseRouteMethod ''widget.prototype.findById'' = Inr (''widget'', ''findById'')"
  by (simp add: parseRouteMethod_def execClassMethod_def lineTerminator_def)

text \<open>
  C9. When the caller supplies no \<^verbatim>\<open>securitySchemes\<close> option, the \<^verbatim>\<open>security\<close> array of the
  returned document holds exactly two requirement entries, one for \<^verbatim>\<open>accessToken\<close> and
  one for \<^verbatim>\<open>accessTokenParam\<close>, each mapping the scheme name to an empty scope list.
\<close>

theorem default_security:
  assumes "securitySchemes opts = SchemesUndefined"
    and "createSwaggerObject h app opts = Inr (doc, ds)"
  shows "doc_get doc ''security'' = Security [[(''accessToken'', [])], [(''accessTokenParam'', [])]]"
proof -
  let ?opts = "optionDefaults (packageJson h) app opts"
  have s: "securitySchemes ?opts = Schemes defaultSecuritySchemes"
    using assms(1) by (simp add: optionDefaults_def)
  from createSwaggerObject_Inr [OF assms(2)] obtain st where
    doc: "doc = finalize h ?opts (tagCandidates h (classes app)) (generateSwaggerObjectBase h ?opts app) st"
    by blast
  show ?thesis
    by (simp add: doc finalize_frame base_security [OF s] defaultSecuritySchemes_def obj_keys_def)
qed


theorem default_security_witness:
  "securitySchemes noOptions = SchemesUndefined
   \<and> createSwaggerObject plainCollaborators (plainApplication [widgetFind] [widgetClass]) noOptions
       = Inr (resultDocument (createSwaggerObject plainCollaborators
                (plainApplication [widgetFind] [widgetClass]) noOptions), [])
   \<and> doc_get (resultDocument (createSwaggerObject plainCollaborators
                (plainApplication [widgetFind] [widgetClass]) noOptions)) ''security''
       = Security [[(''accessToken'', [])], [(''accessTokenParam'', [])]]"
proof -
  have a: "securitySchemes noOptions = SchemesUndefined"
    by (simp add: noOptions_def)
  have b: "createSwaggerObject plainCollaborators (plainApplication [widgetFind] [widgetClass]) noOptions
       = Inr (resultDocument (createSwaggerObject plainCollaborators
                (plainApplication [widgetFind] [widgetClass]) noOptions), [])"
    by code_simp
  from a b default_security [OF a b] show ?thesis by blast
qed

text \<open>
  C10. A documented route whose compound method identifier contains no dot makes the
  assembly throw: the match of the identifier is \<^verbatim>\<open>null\<close> and is dereferenced, so no
  document is returned and the route is not merely skipped.
\<close>

theorem no_dot_throws:
  assumes "r \<in> set (routes app)" and "documented r" and "CHR ''.'' \<notin> set (method r)"
  shows "createSwaggerObject h app opts = Inl TypeError"
  by (simp add: createSwaggerObject_def Let_def forEachRoute_throws [OF assms])

theorem no_dot_throws_witness:
  "ping \<in> set (routes (plainApplication [widgetFind, ping] [widgetClass]))
   \<and> documented ping \<and> CHR ''.'' \<notin> set (method ping)
   \<and> createSwaggerObject plainCollaborators (plainApplication [widgetFind, ping] [widgetClass])
        noOptions = Inl TypeError"
proof -
  have a: "ping \<in> set (routes (plainApplication [widgetFind, ping] [widgetClass]))"
    by (simp add: plainApplication_def)
  have b: "documented ping" by (simp add: ping_def)
  have c: "CHR ''.'' \<notin> set (method ping)" by (simp add: ping_def)
  from a b c no_dot_throws [OF a b c, of plainCollaborators noOptions] show ?thesis by blast
qed

text \<open>
  C5. A documented route whose class name matches no class of the class list is reported
  and skipped, and the assembly goes on: provided the identifiers of the other documented
  routes have the form class, dot, method, a document is returned, it is the document
  that the routes without the orphan yield, and the orphan is among the reported routes.
\<close>

theorem orphan_route_skipped:
  assumes "documented r"
    and "parseRouteMethod (method r) = Inr (className, mName)"
    and "\<forall>c\<in>set (classes app). name c \<noteq> Some className"
    and "routes app = before @ r # after"
    and "\<forall>q\<in>set (before @ after). documented q \<longrightarrow> parseRouteMethod (method q) \<noteq> Inl TypeError"
  shows "\<exists>doc ds ds'.
           createSwaggerObject h app opts = Inr (doc, ds') \<and> r \<in> set ds'
         \<and> createSwaggerObject h (app\<lparr>routes := before @ after\<rparr>) opts = Inr (doc, ds)"
proof -
  have "\<forall>q\<in>set (routes (app\<lparr>routes := before @ after\<rparr>)).
          documented q \<longrightarrow> parseRouteMethod (method q) \<noteq> Inl TypeError"
    using assms(5) by simp
  from createSwaggerObject_returns [OF this] obtain doc ds where
    rest: "createSwaggerObject h (app\<lparr>routes := before @ after\<rparr>) opts = Inr (doc, ds)"
    by blast
  from orphan_route_same_document [OF assms(1-4) rest] rest show ?thesis by blast
qed

theorem orphan_route_skipped_witness:
  "\<exists>doc ds ds'.
      createSwaggerObject plainCollaborators
        (plainApplication [widgetFind, gadgetFind, widgetFindById] [widgetClass]) noOptions
        = Inr (doc, ds')
    \<and> gadgetFind \<in> set ds'
    \<and> createSwaggerObject plainCollaborators
        ((plainApplication [widgetFind, gadgetFind, widgetFindById] [widgetClass])
           \<lparr>routes := [widgetFind] @ [widgetFindById]\<rparr>) noOptions
        = Inr (doc, ds)"
proof -
  let ?app = "plainApplication [widgetFind, gadgetFind, widgetFindById] [widgetClass]"
  have a: "documented gadgetFind" by (simp add: gadgetFind_def)
  have b: "parseRouteMethod (method gadgetFind) = Inr (''gadget'', ''find'')" by code_simp
  have c: "\<forall>c\<in>set (classes ?app). name c \<noteq> Some ''gadget''" by code_simp
  have d: "routes ?app = [widgetFind] @ gadgetFind # [widgetFindById]"
    by (simp add: plainApplication_def)
  have e: "\<forall>q\<in>set ([widgetFind] @ [widgetFindById]).
             documented q \<longrightarrow> parseRouteMethod (method q) \<noteq> Inl TypeError"
    by code_simp
  from orphan_route_skipped [OF a b c d e] show ?thesis .
qed

text \<open>
  C8. The claim fails on the code at a class whose \<^verbatim>\<open>_swaggerMethods\<close> holds only
  \<^verbatim>\<open>find\<close> and a documented route \<^verbatim>\<open>widget.prototype.constructor\<close> of that class: the
  resolved method name is \<^verbatim>\<open>constructor\<close>, line 109 reads
  \<^verbatim>\<open>_swaggerMethods['constructor']\<close>, finds the property every object inherits, and the
  route is not skipped: it is handed to the route helper, whatever the helper is, and with
  the sample collaborators its operation is in the returned document, beside the one of
  \<^verbatim>\<open>widget.find\<close>. (For a method name that is neither \<^verbatim>\<open>find\<close> nor inherited the route
  is skipped: \<open>swaggerMethods_skips_other_names\<close>.)
\<close>

theorem allow_list_admits_inherited_name:
  "swaggerMethods findOnlyClass = Some [(''find'', True)]
   \<and> parseRouteMethod (method widgetConstructor) = Inr (''widget'', ''constructor'')
   \<and> passesSwaggerMethods findOnlyClass ''constructor''
   \<and> (\<forall>h opts st. routeStep h opts [findOnlyClass] widgetConstructor st
          = Inr (callAddRoute h opts widgetConstructor findOnlyClass st))
   \<and> map operationId (operationsOf (documentPaths (resultDocument
        (createSwaggerObject plainCollaborators
           (plainApplication [widgetFind, widgetConstructor] [findOnlyClass]) noOptions))))
       = [''widget.find'', ''widget.prototype.constructor'']"
proof -
  have a: "swaggerMethods findOnlyClass = Some [(''find'', True)]" by code_simp
  have b: "parseRouteMethod (method widgetConstructor) = Inr (''widget'', ''constructor'')"
    by code_simp
  have c: "passesSwaggerMethods findOnlyClass ''constructor''" by code_simp
  have d: "documented widgetConstructor" by (simp add: widgetConstructor_def)
  have e: "findClass [findOnlyClass] ''widget'' = Some findOnlyClass" by code_simp
  have f: "routeStep h opts [findOnlyClass] widgetConstructor st
             = Inr (callAddRoute h opts widgetConstructor findOnlyClass st)" for h opts st
    by (simp add: routeStep_def b c d e)
  have g: "map operationId (operationsOf (documentPaths (resultDocument
        (createSwaggerObject plainCollaborators
           (plainApplication [widgetFind, widgetConstructor] [findOnlyClass]) noOptions))))
       = [''widget.find'', ''widget.prototype.constructor'']"
    by code_simp
  from a b c f g show ?thesis by blast
qed

text \<open>
  C2, as amended. The keys of \<^verbatim>\<open>paths\<close> of the returned document are unique, and they
  are in ascending lexicographic order when none of them is a canonical array index (a
  decimal numeral below \<open>2\<^sup>3\<^sup>2 - 1\<close> without leading zero, which an object enumerates
  before its other keys, in numeric order); the same holds of the keys of
  \<^verbatim>\<open>components.schemas\<close>.
\<close>

theorem paths_and_schemas_sorted:
  assumes "createSwaggerObject h app opts = Inr (doc, ds)"
  shows "doc_get doc ''paths'' = Paths (documentPaths doc)
       \<and> distinct (map fst (documentPaths doc))
       \<and> ((\<forall>k\<in>set (map fst (documentPaths doc)). \<not> isArrayIndex k)
            \<longrightarrow> sorted (map fst (documentPaths doc)))
       \<and> (\<exists>schemes. doc_get doc ''components'' = Components (documentSchemas doc) schemes)
       \<and> distinct (map fst (documentSchemas doc))
       \<and> ((\<forall>k\<in>set (map fst (documentSchemas doc)). \<not> isArrayIndex k)
            \<longrightarrow> sorted (map fst (documentSchemas doc)))"
proof -
  let ?opts = "optionDefaults (packageJson h) app opts"
  from createSwaggerObject_Inr [OF assms] obtain st where
    doc: "doc = finalize h ?opts (tagCandidates h (classes app)) (generateSwaggerObjectBase h ?opts app) st"
    by blast
  let ?schemas = "getSchemas h (registries st)"
  have p: "documentPaths doc = fst (copyPaths (paths st))"
    by (simp add: documentPaths_def doc finalize_paths)
  have c: "documentSchemas doc = assign [] (sortedSchema ?schemas)"
    by (simp add: documentSchemas_def doc finalize_components)
  have "distinct (map fst (documentPaths doc))"
    unfolding p by (rule copyPaths_distinct)
  moreover have "sorted (map fst (documentPaths doc))"
    if "\<forall>k\<in>set (map fst (documentPaths doc)). \<not> isArrayIndex k"
  proof -
    from that have "\<forall>k\<in>fst ` set (paths st). \<not> isArrayIndex k"
      unfolding p by (simp add: copyPaths_keys)
    then have "sorted_wrt (<) (map fst (fst (copyPaths (paths st))))"
      by (rule copyPaths_sorted)
    then show ?thesis unfolding p by (simp add: strict_sorted_iff)
  qed
  moreover have "distinct (map fst (documentSchemas doc))"
    unfolding c by (rule assign_distinct)
  moreover have "sorted (map fst (documentSchemas doc))"
    if "\<forall>k\<in>set (map fst (documentSchemas doc)). \<not> isArrayIndex k"
  proof -
    from that have n: "\<forall>k\<in>fst ` set ?schemas. \<not> isArrayIndex k"
      unfolding c by (simp add: assign_keys sortedSchema_keys)
    then have "sorted_wrt (<) (map fst (sortedSchema ?schemas))"
      by (rule sortedSchema_sorted)
    moreover from n have "\<forall>k\<in>fst ` set (sortedSchema ?schemas). \<not> isArrayIndex k"
      by (simp add: sortedSchema_keys)
    ultimately have "sorted_wrt (<) (map fst (assign [] (sortedSchema ?schemas)))"
      by (rule assign_sorted)
    then show ?thesis unfolding c by (simp add: strict_sorted_iff)
  qed
  moreover have "doc_get doc ''paths'' = Paths (documentPaths doc)"
    by (simp add: p) (simp add: doc finalize_paths)
  moreover have "\<exists>schemes. doc_get doc ''components'' = Components (documentSchemas doc) schemes"
    by (simp add: c) (simp add: doc finalize_components)
  ultimately show ?thesis by blast
qed

theorem paths_and_schemas_sorted_witness:
  "map fst (documentPaths (resultDocument (createSwaggerObject plainCollaborators
      ((plainApplication [widgetFindById, widgetFind] [widgetClass])\<lparr>models := twoModels\<rparr>)
      noOptions))) = [''/widgets'', ''/widgets/{id}'']
   \<and> map fst (documentSchemas (resultDocument (createSwaggerObject plainCollaborators
      ((plainApplication [widgetFindById, widgetFind] [widgetClass])\<lparr>models := twoModels\<rparr>)
      noOptions))) = [''Account'', ''Widget'']
   \<and> sorted (map fst (documentPaths (resultDocument (createSwaggerObject plainCollaborators
      ((plainApplication [widgetFindById, widgetFind] [widgetClass])\<lparr>models := twoModels\<rparr>)
      noOptions))))
   \<and> sorted (map fst (documentSchemas (resultDocument (createSwaggerObject plainCollaborators
      ((plainApplication [widgetFindById, widgetFind] [widgetClass])\<lparr>models := twoModels\<rparr>)
      noOptions))))
   \<and> distinct (map fst (documentSchemas (resultDocument (createSwaggerObject plainCollaborators
      ((plainApplication [widgetFindById, widgetFind] [widgetClass])\<lparr>models := twoModels\<rparr>)
      noOptions))))"
proof -
  let ?app = "(plainApplication [widgetFindById, widgetFind] [widgetClass])\<lparr>models := twoModels\<rparr>"
  let ?doc = "resultDocument (createSwaggerObject plainCollaborators ?app noOptions)"
  have run: "createSwaggerObject plainCollaborators ?app noOptions = Inr (?doc, [])"
    by code_simp
  have p: "map fst (documentPaths ?doc) = [''/widgets'', ''/widgets/{id}'']"
    by code_simp
  have c: "map fst (documentSchemas ?doc) = [''Account'', ''Widget'']"
    by code_simp
  have "\<forall>k\<in>set [''/widgets'', ''/widgets/{id}'']. \<not> isArrayIndex k" by code_simp
  then have np: "\<forall>k\<in>set (map fst (documentPaths ?doc)). \<not> isArrayIndex k"
    by (simp only: p)
  have "\<forall>k\<in>set [''Account'', ''Widget'']. \<not> isArrayIndex k" by code_simp
  then have nc: "\<forall>k\<in>set (map fst (documentSchemas ?doc)). \<not> isArrayIndex k"
    by (simp only: c)
  from paths_and_schemas_sorted [OF run] p c np nc show ?thesis by blast
qed

text \<open>
  C2 as stated fails: with the models \<^verbatim>\<open>b\<close>, \<^verbatim>\<open>9\<close> and \<^verbatim>\<open>10\<close> the keys of
  \<^verbatim>\<open>components.schemas\<close> come out as \<^verbatim>\<open>9\<close>, \<^verbatim>\<open>10\<close>, \<^verbatim>\<open>b\<close>. Lines 119-121 insert
  them as \<^verbatim>\<open>10\<close>, \<^verbatim>\<open>9\<close>, \<^verbatim>\<open>b\<close>, the sorted order, and the object enumerates its
  array indices first, in numeric order; \<^verbatim>\<open>10\<close> is below \<^verbatim>\<open>9\<close> in lexicographic order.
\<close>

theorem numbered_schemas_not_sorted:
  "map fst (documentSchemas (resultDocument (createSwaggerObject plainCollaborators
      ((plainApplication [] [])\<lparr>models := numberedModels\<rparr>) noOptions)))
     = [''9'', ''10'', ''b'']
   \<and> \<not> sorted (map fst (documentSchemas (resultDocument (createSwaggerObject plainCollaborators
      ((plainApplication [] [])\<lparr>models := numberedModels\<rparr>) noOptions))))"
proof -
  let ?doc = "resultDocument (createSwaggerObject plainCollaborators
      ((plainApplication [] [])\<lparr>models := numberedModels\<rparr>) noOptions)"
  have k: "map fst (documentSchemas ?doc) = [''9'', ''10'', ''b'']" by code_simp
  have "\<not> sorted [''9'', ''10'', ''b'']" by code_simp
  with k show ?thesis by simp
qed

text \<open>
  C1, as amended. The final tag list is made of candidate tags (one for each class with a
  name and a documented method), in ascending order of the names. The name of every
  emitted tag appears in the tags of some emitted operation, unless it is the name of a
  property that every object inherits from \<^verbatim>\<open>Object.prototype\<close> (\<open>objectPrototypeNames\<close>;
  of candidates with such a name the statement says nothing). A tag name used by an
  emitted operation appears in the final list as often as a candidate carries it, so
  exactly once when exactly one class yields that name.
\<close>

theorem tags_are_used_candidates:
  assumes "createSwaggerObject h app opts = Inr (doc, ds)"
  shows "doc_get doc ''tags'' = Tags (documentTags doc)
       \<and> doc_get doc ''paths'' = Paths (documentPaths doc)
       \<and> (\<forall>t\<in>set (documentTags doc).
             t \<in> set (tagCandidates h (classes app))
           \<and> (tagName t \<notin> set objectPrototypeNames
                \<longrightarrow> tagName t \<in> set (usedTagNames (documentPaths doc))))
       \<and> (\<forall>n\<in>set (usedTagNames (documentPaths doc)).
             length (filter (\<lambda>t. tagName t = n) (documentTags doc)) =
             length (filter (\<lambda>t. tagName t = n) (tagCandidates h (classes app))))
       \<and> sorted (map tagName (documentTags doc))"
proof -
  let ?opts = "optionDefaults (packageJson h) app opts"
  let ?cands = "tagCandidates h (classes app)"
  from createSwaggerObject_Inr [OF assms] obtain st where
    doc: "doc = finalize h ?opts ?cands (generateSwaggerObjectBase h ?opts app) st"
    by blast
  let ?marks = "snd (copyPaths (paths st))"
  let ?used = "set (usedTagNames (documentPaths doc))"
  let ?keep = "\<lambda>tg. tagName tg \<in> ?used \<or> tagName tg \<in> set objectPrototypeNames"
  have p: "documentPaths doc = fst (copyPaths (paths st))"
    by (simp add: documentPaths_def doc finalize_paths)
  have used: "usedSet ?marks = ?used - {''__proto__''}"
    unfolding p by (rule used_names_copyPaths)
  have "documentTags doc = usedTagsFilter ?marks ?cands"
    by (simp add: documentTags_def doc finalize_tags)
  also have "\<dots> = sort_key tagName (rev (filter ?keep ?cands))"
    using marks_copyPaths used by (rule usedTagsFilter_keep)
  finally have t: "documentTags doc = sort_key tagName (rev (filter ?keep ?cands))" .
  have "doc_get doc ''tags'' = Tags (documentTags doc)"
    by (simp add: documentTags_def) (simp add: doc finalize_tags)
  moreover have "doc_get doc ''paths'' = Paths (documentPaths doc)"
    by (simp add: p) (simp add: doc finalize_paths)
  moreover have "\<forall>t\<in>set (documentTags doc). t \<in> set ?cands
      \<and> (tagName t \<notin> set objectPrototypeNames \<longrightarrow> tagName t \<in> ?used)"
    by (subst t) auto
  moreover have "\<forall>n\<in>?used. length (filter (\<lambda>t. tagName t = n) (documentTags doc)) =
                 length (filter (\<lambda>t. tagName t = n) ?cands)"
  proof
    fix n
    assume "n \<in> ?used"
    then show "length (filter (\<lambda>t. tagName t = n) (documentTags doc)) =
               length (filter (\<lambda>t. tagName t = n) ?cands)"
      unfolding t by (rule count_kept)
  qed
  moreover have "sorted (map tagName (documentTags doc))"
    by (subst t) simp
  ultimately show ?thesis by blast
qed

theorem tags_are_used_candidates_witness:
  "documentTags (resultDocument (createSwaggerObject plainCollaborators
      (plainApplication [widgetFind] [gadgetClass, widgetClass]) noOptions))
     = [\<lparr>tagName = ''widget'', tagDescription = []\<rparr>]
   \<and> usedTagNames (documentPaths (resultDocument (createSwaggerObject plainCollaborators
      (plainApplication [widgetFind] [gadgetClass, widgetClass]) noOptions))) = [''widget'']
   \<and> ''widget'' \<notin> set objectPrototypeNames
   \<and> sorted (map tagName (documentTags (resultDocument (createSwaggerObject plainCollaborators
      (plainApplication [widgetFind] [gadgetClass, widgetClass]) noOptions))))"
proof -
  let ?app = "plainApplication [widgetFind] [gadgetClass, widgetClass]"
  let ?doc = "resultDocument (createSwaggerObject plainCollaborators ?app noOptions)"
  have run: "createSwaggerObject plainCollaborators ?app noOptions = Inr (?doc, [])"
    by code_simp
  have t: "documentTags ?doc = [\<lparr>tagName = ''widget'', tagDescription = []\<rparr>]"
    by code_simp
  have u: "usedTagNames (documentPaths ?doc) = [''widget'']"
    by code_simp
  have n: "''widget'' \<notin> set objectPrototypeNames"
    by code_simp
  from tags_are_used_candidates [OF run] t u n show ?thesis by blast
qed

text \<open>
  C1 as stated fails in two ways. First run: the class \<^verbatim>\<open>widget\<close> has no documented
  method, so it gets no candidate tag, while its documented route is mapped and the
  operation carries the tag name \<^verbatim>\<open>widget\<close>; the name is used by an emitted operation and
  is missing from the final tag list. Second run: two classes of the name \<^verbatim>\<open>widget\<close>
  have documented methods, and the used name appears twice in the final tag list.
\<close>

theorem used_tag_without_candidate:
  "usedTagNames (documentPaths (resultDocument (createSwaggerObject plainCollaborators
      (plainApplication [widgetFind] [undocumentedWidget]) noOptions))) = [''widget'']
   \<and> doc_get (resultDocument (createSwaggerObject plainCollaborators
      (plainApplication [widgetFind] [undocumentedWidget]) noOptions)) ''tags'' = Tags []
   \<and> usedTagNames (documentPaths (resultDocument (createSwaggerObject plainCollaborators
      (plainApplication [widgetFind] [widgetClass, findOnlyClass]) noOptions))) = [''widget'']
   \<and> map tagName (documentTags (resultDocument (createSwaggerObject plainCollaborators
      (plainApplication [widgetFind] [widgetClass, findOnlyClass]) noOptions)))
       = [''widget'', ''widget'']"
  by code_simp

text \<open>
  C3. With the route helper of the spec: every path item of the returned document has the
  seven method slots, and a slot holds an operation only if a documented route of the
  input, whose class was found and which passed \<^verbatim>\<open>_swaggerMethods\<close>, is mapped to this
  path, this method and this operation. A slot without such a route holds \<^verbatim>\<open>undefined\<close>,
  which is how the document presents an absent operation.
\<close>

theorem slot_only_from_route:
  assumes "addRouteToSwaggerPaths h = addRouteBySpec mapRoute"
    and "createSwaggerObject h app opts = Inr (doc, ds)"
    and "(current, slots) \<in> set (documentPaths doc)"
  shows "doc_get doc ''paths'' = Paths (documentPaths doc)
       \<and> map fst slots = httpMethods
       \<and> (\<forall>m operation. (m, Some operation) \<in> set slots \<longrightarrow>
             m \<in> set httpMethods
           \<and> (\<exists>r\<in>set (routes app).
                 routeYields mapRoute (optionDefaults (packageJson h) app opts) (classes app)
                   r current m operation))"
proof -
  let ?opts = "optionDefaults (packageJson h) app opts"
  from createSwaggerObject_Inr [OF assms(2)] obtain st where
    run: "forEachRoute h ?opts (classes app) (routes app)
            \<lparr>registries = registerModels h ?opts (models app), paths = [], reported = []\<rparr> = Inr st"
    and doc: "doc = finalize h ?opts (tagCandidates h (classes app))
                      (generateSwaggerObjectBase h ?opts app) st"
    by blast
  have p: "documentPaths doc = fst (copyPaths (paths st))"
    by (simp add: documentPaths_def doc finalize_paths)
  from assms(3) have key: "current \<in> fst ` set (paths st)"
    and slots: "slots = pathItemOf (gridItem (paths st) current)"
    unfolding p set_copyPaths by auto
  from key obtain item where item: "map_of (paths st) current = Some item"
    by (metis domD dom_map_of_conv_image_fst)
  have gi: "gridItem (paths st) current = item" by (simp add: gridItem_def item)
  have "m \<in> set httpMethods \<and> (\<exists>r\<in>set (routes app).
          routeYields mapRoute ?opts (classes app) r current m operation)"
    if "(m, Some operation) \<in> set slots" for m operation
  proof -
    from that have m: "m \<in> set httpMethods" and op: "map_of item m = Some operation"
      unfolding slots gi pathItemOf_slot by auto
    from forEachRoute_grid [OF assms(1) run item op] m show ?thesis by simp
  qed
  moreover have "doc_get doc ''paths'' = Paths (documentPaths doc)"
    by (simp add: p) (simp add: doc finalize_paths)
  ultimately show ?thesis by (simp add: slots pathItemOf_keys)
qed

theorem slot_only_from_route_witness:
  "(''/widgets'',
     [(''get'', Some \<lparr>operationId = ''widget.find'', tags = [''widget'']\<rparr>),
      (''post'', None), (''put'', None), (''patch'', None), (''delete'', None),
      (''head'', None), (''options'', None)])
     \<in> set (documentPaths (resultDocument (createSwaggerObject plainCollaborators
            (plainApplication [widgetFind, gadgetFind] [widgetClass]) noOptions)))
   \<and> (\<exists>r\<in>set (routes (plainApplication [widgetFind, gadgetFind] [widgetClass])).
         routeYields plainMapRoute
           (optionDefaults (packageJson plainCollaborators)
              (plainApplication [widgetFind, gadgetFind] [widgetClass]) noOptions)
           (classes (plainApplication [widgetFind, gadgetFind] [widgetClass]))
           r ''/widgets'' ''get'' \<lparr>operationId = ''widget.find'', tags = [''widget'']\<rparr>)"
proof -
  let ?app = "plainApplication [widgetFind, gadgetFind] [widgetClass]"
  let ?doc = "resultDocument (createSwaggerObject plainCollaborators ?app noOptions)"
  let ?slots = "[(''get'', Some \<lparr>operationId = ''widget.find'', tags = [''widget'']\<rparr>),
      (''post'', None), (''put'', None), (''patch'', None), (''delete'', None),
      (''head'', None), (''options'', None)]"
  have helper: "addRouteToSwaggerPaths plainCollaborators = addRouteBySpec plainMapRoute"
    by (simp add: plainCollaborators_def)
  have run: "createSwaggerObject plainCollaborators ?app noOptions = Inr (?doc, [gadgetFind])"
    by code_simp
  have slot: "(''/widgets'', ?slots) \<in> set (documentPaths ?doc)"
    by code_simp
  have "(''get'', Some \<lparr>operationId = ''widget.find'', tags = [''widget'']\<rparr>) \<in> set ?slots"
    by simp
  with slot_only_from_route [OF helper run slot] slot show ?thesis by blast
qed

text \<open>
  C4, as amended. The assembly is a function of its input snapshot, so running it twice
  on the same snapshot gives the same document; and the document does not depend on the
  order of the class list when the classes have pairwise distinct names and their tags
  have pairwise distinct names. (The order of the routes can matter, see below; what the
  order of the models does is decided by the type registry.)
\<close>

theorem class_order_irrelevant:
  fixes h :: "('m, 'r, 's, 't) collaborators" and app :: "('m, 'x) application"
  assumes "set cs' = set (classes app)"
    and "distinct (map name cs')"
    and "distinct (map name (classes app))"
    and "inj_on (\<lambda>c. tagName (buildTagFromClass h c)) (set (classes app))"
  shows "createSwaggerObject h (app\<lparr>classes := cs'\<rparr>) opts = createSwaggerObject h app opts"
proof -
  let ?opts = "optionDefaults (packageJson h) app opts"
  have same_opts: "optionDefaults (packageJson h) (app\<lparr>classes := cs'\<rparr>) opts = ?opts"
    by (simp add: optionDefaults_def cong: option.case_cong)
  have same_base: "generateSwaggerObjectBase h ?opts (app\<lparr>classes := cs'\<rparr>) =
                   generateSwaggerObjectBase h ?opts app"
    by (simp add: generateSwaggerObjectBase_def)
  have fc: "findClass cs' n = findClass (classes app) n" for n
    using assms(1,2,3) by (rule findClass_permuted)
  have run: "forEachRoute h ?opts cs' rs st = forEachRoute h ?opts (classes app) rs st" for rs st
    using fc by (rule forEachRoute_classes)
  have d: "distinct (map tagName (tagCandidates h (classes app)))"
    using assms(3,4) by (rule tagCandidates_distinct)
  have d': "distinct (map tagName (tagCandidates h cs'))"
    using assms(2) assms(4) [folded assms(1)] by (rule tagCandidates_distinct)
  have s: "set (tagCandidates h cs') = set (tagCandidates h (classes app))"
    by (simp add: tagCandidates_def assms(1))
  have fin: "finalize h ?opts (tagCandidates h cs') d0 st =
             finalize h ?opts (tagCandidates h (classes app)) d0 st" for d0 :: "('s, 'x) document" and st
    by (simp add: finalize_def usedTagsFilter_permuted [OF s d' d] split: prod.split)
  show ?thesis
    by (simp add: createSwaggerObject_def Let_def same_opts same_base run fin cong: sum.case_cong)
qed

theorem class_order_irrelevant_witness:
  "createSwaggerObject plainCollaborators
     ((plainApplication [widgetFind, gadgetFind] [widgetClass, gadgetClass])
        \<lparr>classes := [gadgetClass, widgetClass]\<rparr>) noOptions
   = createSwaggerObject plainCollaborators
       (plainApplication [widgetFind, gadgetFind] [widgetClass, gadgetClass]) noOptions"
proof -
  let ?app = "plainApplication [widgetFind, gadgetFind] [widgetClass, gadgetClass]"
  have cs: "classes ?app = [widgetClass, gadgetClass]" by (simp add: plainApplication_def)
  have ne: "widgetClass \<noteq> gadgetClass" by (simp add: widgetClass_def gadgetClass_def)
  have a: "set [gadgetClass, widgetClass] = set (classes ?app)" unfolding cs by auto
  have b: "distinct (map name [gadgetClass, widgetClass])"
    by (simp add: widgetClass_def gadgetClass_def)
  have c: "distinct (map name (classes ?app))"
    unfolding cs by (simp add: widgetClass_def gadgetClass_def)
  have d: "inj_on (\<lambda>c. tagName (buildTagFromClass plainCollaborators c)) (set (classes ?app))"
    unfolding cs by (simp add: plainCollaborators_def widgetClass_def gadgetClass_def)
  from class_order_irrelevant [OF a b c d] show ?thesis .
qed

text \<open>
  C4 as stated fails for the routes: two documented routes on the same path and verb
  are both mapped, the later one replaces the operation of the earlier one, and swapping
  them changes the operation the document holds.
\<close>

theorem route_order_matters:
  "map operationId (operationsOf (documentPaths (resultDocument (createSwaggerObject
      plainCollaborators (plainApplication [widgetFind, widgetList] [widgetClass]) noOptions))))
     = [''widget.list'']
   \<and> map operationId (operationsOf (documentPaths (resultDocument (createSwaggerObject
      plainCollaborators (plainApplication [widgetList, widgetFind] [widgetClass]) noOptions))))
     = [''widget.find'']
   \<and> createSwaggerObject plainCollaborators
         (plainApplication [widgetFind, widgetList] [widgetClass]) noOptions
     \<noteq> createSwaggerObject plainCollaborators
         (plainApplication [widgetList, widgetFind] [widgetClass]) noOptions"
  by code_simp




end
